theory Spec2Isabelle
  imports Main "HOL-Library.Sublist"
begin

section \<open>Strings of the Go standard library\<close>

text \<open>
  A Go string is a sequence of bytes, here a \<^typ>\<open>string\<close>.  The agent code calls
  four functions of the package \<^verbatim>\<open>strings\<close>: \<^verbatim>\<open>Split\<close>, \<^verbatim>\<open>Join\<close>,
  \<^verbatim>\<open>TrimSpace\<close> and \<^verbatim>\<open>Contains\<close>.  They belong to the Go distribution, not to the
  repository, and are modelled after their documented behaviour.
\<close>

subsection \<open>White space\<close>

text \<open>
  \<^verbatim>\<open>TrimSpace\<close> removes leading and trailing white space as defined by Unicode.
  The white space runes are U+0009 to U+000D, U+0020, U+0085, U+00A0, U+1680,
  U+2000 to U+200A, U+2028, U+2029, U+202F, U+205F and U+3000; the list below holds
  their UTF-8 encodings.  A byte that does not start a valid encoding decodes to the
  replacement rune, which is not white space.
\<close>

definition unicode_spaces :: "string list" where
  "unicode_spaces =
    [[CHR 0x09], [CHR 0x0A], [CHR 0x0B], [CHR 0x0C], [CHR 0x0D], [CHR 0x20],
     [CHR 0xC2, CHR 0x85], [CHR 0xC2, CHR 0xA0],
     [CHR 0xE1, CHR 0x9A, CHR 0x80],
     [CHR 0xE2, CHR 0x80, CHR 0x80], [CHR 0xE2, CHR 0x80, CHR 0x81],
     [CHR 0xE2, CHR 0x80, CHR 0x82], [CHR 0xE2, CHR 0x80, CHR 0x83],
     [CHR 0xE2, CHR 0x80, CHR 0x84], [CHR 0xE2, CHR 0x80, CHR 0x85],
     [CHR 0xE2, CHR 0x80, CHR 0x86], [CHR 0xE2, CHR 0x80, CHR 0x87],
     [CHR 0xE2, CHR 0x80, CHR 0x88], [CHR 0xE2, CHR 0x80, CHR 0x89],
     [CHR 0xE2, CHR 0x80, CHR 0x8A],
     [CHR 0xE2, CHR 0x80, CHR 0xA8], [CHR 0xE2, CHR 0x80, CHR 0xA9],
     [CHR 0xE2, CHR 0x80, CHR 0xAF], [CHR 0xE2, CHR 0x81, CHR 0x9F],
     [CHR 0xE3, CHR 0x80, CHR 0x80]]"

definition leading_space :: "string \<Rightarrow> string option" where
  "leading_space s = find (\<lambda>e. prefix e s) unicode_spaces"

definition trailing_space :: "string \<Rightarrow> string option" where
  "trailing_space s = find (\<lambda>e. suffix e s) unicode_spaces"

lemma unicode_spaces_nonempty: "e \<in> set unicode_spaces \<Longrightarrow> e \<noteq> []"
  by (auto simp: unicode_spaces_def)

lemma leading_space_SomeD:
  "leading_space s = Some e \<Longrightarrow> e \<in> set unicode_spaces \<and> prefix e s \<and> e \<noteq> []"
  by (auto simp: leading_space_def find_Some_iff unicode_spaces_nonempty)

lemma trailing_space_SomeD:
  "trailing_space s = Some e \<Longrightarrow> e \<in> set unicode_spaces \<and> suffix e s \<and> e \<noteq> []"
  by (auto simp: trailing_space_def find_Some_iff unicode_spaces_nonempty)

function TrimLeft :: "string \<Rightarrow> string" where
  "TrimLeft s =
     (case leading_space s of
        None \<Rightarrow> s
      | Some e \<Rightarrow> TrimLeft (drop (length e) s))"
  by pat_completeness auto
termination
proof (relation "measure length")
  fix s e
  assume "leading_space s = Some e"
  then have "prefix e s" "e \<noteq> []"
    by (auto dest: leading_space_SomeD)
  then have "s \<noteq> []" "0 < length e"
    by auto
  then show "(drop (length e) s, s) \<in> measure length"
    by simp
qed simp

function TrimRight :: "string \<Rightarrow> string" where
  "TrimRight s =
     (case trailing_space s of
        None \<Rightarrow> s
      | Some e \<Rightarrow> TrimRight (take (length s - length e) s))"
  by pat_completeness auto
termination
proof (relation "measure length")
  fix s e
  assume "trailing_space s = Some e"
  then have "suffix e s" "e \<noteq> []"
    by (auto dest: trailing_space_SomeD)
  then have "s \<noteq> []" "0 < length e"
    by auto
  then show "(take (length s - length e) s, s) \<in> measure length"
    by simp
qed simp

definition TrimSpace :: "string \<Rightarrow> string" where
  "TrimSpace s = TrimRight (TrimLeft s)"

subsection \<open>Searching, splitting and joining\<close>

text \<open>\<^verbatim>\<open>Contains(s, substr)\<close> reports whether \<^verbatim>\<open>substr\<close> occurs within \<^verbatim>\<open>s\<close>.\<close>

definition Contains :: "string \<Rightarrow> string \<Rightarrow> bool" where
  "Contains s substr = sublist substr s"

text \<open>\<^verbatim>\<open>Index(s, substr)\<close> is the position of the first occurrence, if there is one.\<close>

fun Index :: "string \<Rightarrow> string \<Rightarrow> nat option" where
  "Index [] substr = (if substr = [] then Some 0 else None)"
| "Index (c # cs) substr =
     (if prefix substr (c # cs) then Some 0 else map_option Suc (Index cs substr))"

lemma Index_SomeD:
  "Index s substr = Some i \<Longrightarrow> i + length substr \<le> length s \<and> prefix substr (drop i s)"
proof (induction s arbitrary: i)
  case Nil
  then show ?case by (simp split: if_splits)
next
  case (Cons c cs)
  show ?case
  proof (cases "prefix substr (c # cs)")
    case True
    with Cons.prems have "i = 0" by simp
    moreover from True have "length substr \<le> length (c # cs)"
      by (rule prefix_length_le)
    ultimately show ?thesis using True by simp
  next
    case False
    with Cons.prems obtain j where "Index cs substr = Some j" "i = Suc j"
      by auto
    with Cons.IH [of j] show ?thesis by simp
  qed
qed

text \<open>
  \<^verbatim>\<open>Split(s, sep)\<close> cuts \<^verbatim>\<open>s\<close> at every occurrence of \<^verbatim>\<open>sep\<close>, found from the left
  and not overlapping, and returns the pieces between them: one piece more than there
  are cuts.  The agent code passes the two non-empty constants \<^verbatim>\<open>"\n@@@@\n"\<close> and
  \<^verbatim>\<open>"\n"\<close> only.  For an empty separator Go explodes \<^verbatim>\<open>s\<close> into its UTF-8 sequences;
  that case is never reached from the agent code and is not modelled: the function
  returns \<open>[s]\<close> there.
\<close>

function Split :: "string \<Rightarrow> string \<Rightarrow> string list" where
  "Split s sep =
     (case Index s sep of
        None \<Rightarrow> [s]
      | Some i \<Rightarrow>
          if sep = [] then [s]
          else take i s # Split (drop (i + length sep) s) sep)"
  by pat_completeness auto
termination
proof (relation "measure (\<lambda>(s, sep). length s)")
  fix s sep :: string and i
  assume "Index s sep = Some i" "sep \<noteq> []"
  then have "i + length sep \<le> length s" "0 < length sep"
    by (auto dest: Index_SomeD)
  then have "length s - (i + length sep) < length s"
    by arith
  then show "((drop (i + length sep) s, sep), (s, sep)) \<in> measure (\<lambda>(s, sep). length s)"
    by simp
qed simp

text \<open>\<^verbatim>\<open>Join(elems, sep)\<close> concatenates the elements with \<^verbatim>\<open>sep\<close> between them.\<close>

fun Join :: "string list \<Rightarrow> string \<Rightarrow> string" where
  "Join [] sep = []"
| "Join [x] sep = x"
| "Join (x # y # ys) sep = x @ sep @ Join (y # ys) sep"

section \<open>Errors\<close>

text \<open>
  An error of an external collaborator carries its message; \<^verbatim>\<open>fmt.Errorf("op: %w", err)\<close>
  wraps an error with the name of the failed operation.  The error of an exhausted poll
  is built by \<^verbatim>\<open>WaitForReply\<close> itself from the tag it waited for.
\<close>

datatype error =
    External string
  | Wrapped string error
  | Timeout string

section \<open>The task parser\<close>

record task =
  Title :: string
  Description :: string

definition delimiter :: string where
  "delimiter = ''\<newline>@@@@\<newline>''"

definition newline :: string where
  "newline = ''\<newline>''"

text \<open>
  The body of the loop of \<^verbatim>\<open>parseTasksFromResponse\<close> over the blocks, with the slice
  \<^verbatim>\<open>tasks\<close> it appends to.
\<close>

fun parse_blocks :: "string list \<Rightarrow> task list \<Rightarrow> task list" where
  "parse_blocks [] tasks = tasks"
| "parse_blocks (block # rest) tasks =
     (let block' = TrimSpace block in
      if block' = [] then parse_blocks rest tasks
      else
        let lines = Split block' newline in
        if length lines = 0 then parse_blocks rest tasks
        else
          let title = TrimSpace (hd lines);
              description =
                (if length lines > 1 then TrimSpace (Join (tl lines) newline) else [])
          in parse_blocks rest (tasks @ [\<lparr>Title = title, Description = description\<rparr>]))"

definition parseTasksFromResponse :: "string \<Rightarrow> error + task list" where
  "parseTasksFromResponse response = Inr (parse_blocks (Split response delimiter) [])"

text \<open>
  What one pass of the loop appends for a block that is not empty after trimming: the
  task built from the lines of the trimmed block.
\<close>

definition block_task :: "string \<Rightarrow> task" where
  "block_task block' =
     (let lines = Split block' newline in
      \<lparr>Title = TrimSpace (hd lines),
       Description =
         (if length lines > 1 then TrimSpace (Join (tl lines) newline) else [])\<rparr>)"

subsection \<open>The parser in the words of the specification\<close>

text \<open>
  The specification speaks of the segments between the delimiters, of the first line of
  a segment and of the lines after it.  These definitions follow its words; they are
  compared with the code's \<^const>\<open>Split\<close> and \<^const>\<open>Join\<close> below.
\<close>

definition first_line :: "string \<Rightarrow> string" where
  "first_line t = takeWhile (\<lambda>c. c \<noteq> CHR 0x0A) t"

definition remaining_lines :: "string \<Rightarrow> string" where
  "remaining_lines t = drop (Suc (length (first_line t))) t"

definition segments :: "string \<Rightarrow> string list" where
  "segments text = Split text delimiter"

definition well_formed :: "string \<Rightarrow> bool" where
  "well_formed segment \<longleftrightarrow> TrimSpace segment \<noteq> []"

definition segment_task :: "string \<Rightarrow> task" where
  "segment_task segment =
     \<lparr>Title = TrimSpace (first_line (TrimSpace segment)),
      Description = TrimSpace (remaining_lines (TrimSpace segment))\<rparr>"

section \<open>The collaborators of an agent\<close>

text \<open>
  An agent works on a ticket board, a language model and a mirror of the repository.
  The board client and the model client are packages of the repository that are not
  among the source files; the repository mirror reads the file system.  All three are
  parameters of the model: a record of functions that answer the calls of the agent.
  An answer may depend on everything the agent has done before (the board changes while
  the agent polls it, and the agent's own comments appear on it), so every function
  takes the trace of the calls made so far.
\<close>

record card =
  ID :: string
  Name :: string
  Desc :: string
  IDList :: string
  IDMembers :: "string list"

record member =
  Username :: string

record message =
  Role :: string
  Content :: string

type_synonym board = string

datatype event =
    Call_Chat string
  | Call_ChatWithMessages "message list"
  | Call_PostComment string string
  | Call_GetComments string
  | Call_Sleep nat
  | Call_GetListIDByName string
  | Call_CreateCard string string string
  | Call_GetBoard
  | Call_GetCards
  | Call_GetMember string
  | Call_ReadAllFiles

type_synonym trace = "event list"

record env =
  Chat :: "trace \<Rightarrow> string \<Rightarrow> error + string"
  ChatWithMessages :: "trace \<Rightarrow> message list \<Rightarrow> error + string"
  PostComment :: "trace \<Rightarrow> card \<Rightarrow> string \<Rightarrow> error option"
  GetComments :: "trace \<Rightarrow> card \<Rightarrow> error + string list"
  GetListIDByName :: "trace \<Rightarrow> string \<Rightarrow> error + string"
  CreateCard :: "trace \<Rightarrow> string \<Rightarrow> string \<Rightarrow> string \<Rightarrow> error + card"
  GetBoard :: "trace \<Rightarrow> error + board"
  GetCards :: "trace \<Rightarrow> board \<Rightarrow> error + card list"
  GetMember :: "trace \<Rightarrow> string \<Rightarrow> error + member"
  ReadAllFiles :: "trace \<Rightarrow> error + (string \<times> string) list"

text \<open>
  \<^verbatim>\<open>ReadAllFiles\<close> returns a Go map, and \<^verbatim>\<open>RefreshProjectContext\<close> ranges over it in an
  order Go leaves open: the list holds the entries in the order of that iteration.

  Two functions of the Go distribution are parameters as well: \<^verbatim>\<open>strings.EqualFold\<close>,
  equality under the simple case folding of Unicode, whose tables are not part of the
  repository, and \<^verbatim>\<open>filepath.Dir\<close>.
\<close>

record library =
  EqualFold :: "string \<Rightarrow> string \<Rightarrow> bool"
  Dir :: "string \<Rightarrow> string"

text \<open>
  The restriction of \<^verbatim>\<open>EqualFold\<close> to ASCII text, where folding maps the letters
  \<^verbatim>\<open>A\<close> to \<^verbatim>\<open>Z\<close> to \<^verbatim>\<open>a\<close> to \<^verbatim>\<open>z\<close>; it instantiates the parameter in the examples.
\<close>

definition ascii_fold :: "char \<Rightarrow> char" where
  "ascii_fold c =
     (let n = (of_char c :: nat) in if 65 \<le> n \<and> n \<le> 90 then char_of (n + 32) else c)"

definition ascii_EqualFold :: "string \<Rightarrow> string \<Rightarrow> bool" where
  "ascii_EqualFold s t \<longleftrightarrow> map ascii_fold s = map ascii_fold t"

section \<open>The base agent\<close>

text \<open>
  Of \<^verbatim>\<open>AIAgent\<close> the model keeps the name and the purpose; its three clients are the
  environment.  The field \<^verbatim>\<open>Name\<close> is called \<open>AgentName\<close> here, a card having a
  \<^verbatim>\<open>Name\<close> of its own.  Every method takes the trace and returns its result with the
  extended trace.  A Go result \<^verbatim>\<open>(value, error)\<close> is a sum, a result \<^verbatim>\<open>error\<close> an option
  (\<open>None\<close> for \<^verbatim>\<open>nil\<close>).  Output to the log is not modelled.
\<close>

record AIAgent =
  AgentName :: string
  Purpose :: string

definition WriteComment :: "env \<Rightarrow> card \<Rightarrow> string \<Rightarrow> trace \<Rightarrow> error option \<times> trace" where
  "WriteComment env ticket comment tr =
     (PostComment env tr ticket comment, tr @ [Call_PostComment (ID ticket) comment])"

definition ReadComments :: "env \<Rightarrow> card \<Rightarrow> trace \<Rightarrow> (error + string list) \<times> trace" where
  "ReadComments env ticket tr = (GetComments env tr ticket, tr @ [Call_GetComments (ID ticket)])"

definition ReadAllGitFiles :: "env \<Rightarrow> trace \<Rightarrow> (error + (string \<times> string) list) \<times> trace" where
  "ReadAllGitFiles env tr = (ReadAllFiles env tr, tr @ [Call_ReadAllFiles])"

text \<open>The loop of \<^verbatim>\<open>TicketBelongsToMe\<close> over the member ids of a ticket.\<close>

fun belongs_loop ::
  "library \<Rightarrow> env \<Rightarrow> AIAgent \<Rightarrow> string list \<Rightarrow> trace \<Rightarrow> bool \<times> trace" where
  "belongs_loop lib env a [] tr = (False, tr)"
| "belongs_loop lib env a (memberID # rest) tr =
     (case GetMember env tr memberID of
        Inl err \<Rightarrow> belongs_loop lib env a rest (tr @ [Call_GetMember memberID])
      | Inr member \<Rightarrow>
          if EqualFold lib (Username member) (AgentName a)
          then (True, tr @ [Call_GetMember memberID])
          else belongs_loop lib env a rest (tr @ [Call_GetMember memberID]))"

definition TicketBelongsToMe ::
  "library \<Rightarrow> env \<Rightarrow> AIAgent \<Rightarrow> card \<Rightarrow> trace \<Rightarrow> bool \<times> trace" where
  "TicketBelongsToMe lib env a ticket tr = belongs_loop lib env a (IDMembers ticket) tr"

definition file_summary :: "library \<Rightarrow> string \<times> string \<Rightarrow> string" where
  "file_summary lib entry =
     (case entry of (filePath, content) \<Rightarrow>
        ''File: '' @ filePath @ ''\<newline>'' @
        ''Location: '' @ Dir lib filePath @ ''\<newline>'' @
        ''Content:\<newline>'' @
        content @
        ''\<newline>----------------\<newline>'')"

text \<open>The prompt that \<^verbatim>\<open>RefreshProjectContext\<close> builds from the files.\<close>

definition context_prompt :: "library \<Rightarrow> (string \<times> string) list \<Rightarrow> string" where
  "context_prompt lib files =
     (let summary =
            ''Project Context Update:\<newline>'' @
            ''The following is the project folder structure along with file locations and full file contents:\<newline>\<newline>'' @
            concat (map (file_summary lib) files)
      in summary @
         ''\<newline>\<newline>Note: This information is provided solely to actualise and update your internal understanding of the project structure and code base. No response or commentary is needed.'')"

definition RefreshProjectContext :: "library \<Rightarrow> env \<Rightarrow> trace \<Rightarrow> error option \<times> trace" where
  "RefreshProjectContext lib env tr =
     (case ReadAllGitFiles env tr of
        (Inl err, tr1) \<Rightarrow> (Some (Wrapped ''failed to read git files'' err), tr1)
      | (Inr files, tr1) \<Rightarrow>
          let prompt = context_prompt lib files in
          (case Chat env tr1 prompt of
             Inl err \<Rightarrow>
               (Some (Wrapped ''failed to update GPT context'' err), tr1 @ [Call_Chat prompt])
           | Inr _ \<Rightarrow> (None, tr1 @ [Call_Chat prompt])))"

text \<open>
  The loop of \<^verbatim>\<open>GetAssignedTickets\<close> over the cards of the board, with the slice
  \<^verbatim>\<open>assigned\<close> and the flag \<^verbatim>\<open>needToRefreshContext\<close>.
\<close>

fun assigned_loop ::
  "library \<Rightarrow> env \<Rightarrow> AIAgent \<Rightarrow> card list \<Rightarrow> card list \<Rightarrow> bool \<Rightarrow> trace \<Rightarrow>
     (error + card list) \<times> trace" where
  "assigned_loop lib env a [] assigned needToRefreshContext tr = (Inr assigned, tr)"
| "assigned_loop lib env a (ticket # rest) assigned needToRefreshContext tr =
     (case TicketBelongsToMe lib env a ticket tr of
        (True, tr1) \<Rightarrow>
          if needToRefreshContext then
            (case RefreshProjectContext lib env tr1 of
               (Some refreshErr, tr2) \<Rightarrow>
                 (Inl (Wrapped ''failed to refresh context'' refreshErr), tr2)
             | (None, tr2) \<Rightarrow> assigned_loop lib env a rest (assigned @ [ticket]) False tr2)
          else assigned_loop lib env a rest (assigned @ [ticket]) needToRefreshContext tr1
      | (False, tr1) \<Rightarrow> assigned_loop lib env a rest assigned needToRefreshContext tr1)"

definition GetAssignedTickets ::
  "library \<Rightarrow> env \<Rightarrow> AIAgent \<Rightarrow> trace \<Rightarrow> (error + card list) \<times> trace" where
  "GetAssignedTickets lib env a tr =
     (case GetBoard env tr of
        Inl err \<Rightarrow> (Inl (Wrapped ''failed to get board'' err), tr @ [Call_GetBoard])
      | Inr board \<Rightarrow>
          (case GetCards env (tr @ [Call_GetBoard]) board of
             Inl err \<Rightarrow>
               (Inl (Wrapped ''failed to get cards'' err), tr @ [Call_GetBoard, Call_GetCards])
           | Inr cards \<Rightarrow>
               assigned_loop lib env a cards [] True (tr @ [Call_GetBoard, Call_GetCards])))"

text \<open>The loop of \<^verbatim>\<open>LoadGuidanceTickets\<close> that fills the string builder.\<close>

fun guidance_loop :: "card list \<Rightarrow> string \<Rightarrow> string \<Rightarrow> string" where
  "guidance_loop [] listID text = text"
| "guidance_loop (ticket # rest) listID text =
     (if IDList ticket = listID
      then guidance_loop rest listID
             (text @ (''Title: '' @ Name ticket @ ''\<newline>'') @
                     (''Details: '' @ Desc ticket @ ''\<newline>\<newline>''))
      else guidance_loop rest listID text)"

definition LoadGuidanceTickets :: "env \<Rightarrow> trace \<Rightarrow> error option \<times> trace" where
  "LoadGuidanceTickets env tr =
     (case GetListIDByName env tr ''IMPORTANT'' of
        Inl err \<Rightarrow>
          (Some (Wrapped ''failed to get list ID for IMPORTANT'' err),
           tr @ [Call_GetListIDByName ''IMPORTANT''])
      | Inr listID \<Rightarrow>
          let tr1 = tr @ [Call_GetListIDByName ''IMPORTANT''] in
          (case GetBoard env tr1 of
             Inl err \<Rightarrow> (Some (Wrapped ''failed to get board'' err), tr1 @ [Call_GetBoard])
           | Inr board \<Rightarrow>
               let tr2 = tr1 @ [Call_GetBoard] in
               (case GetCards env tr2 board of
                  Inl err \<Rightarrow>
                    (Some (Wrapped ''failed to get cards from board'' err), tr2 @ [Call_GetCards])
                | Inr cards \<Rightarrow>
                    let tr3 = tr2 @ [Call_GetCards];
                        guidanceText = guidance_loop cards listID ''Guidance Tickets:\<newline>''
                    in
                    if guidanceText = ''Guidance Tickets:\<newline>'' then (None, tr3)
                    else
                      let messages = [\<lparr>Role = ''system'', Content = guidanceText\<rparr>] in
                      (case ChatWithMessages env tr3 messages of
                         Inl err \<Rightarrow>
                           (Some (Wrapped ''failed to update GPT guidance context'' err),
                            tr3 @ [Call_ChatWithMessages messages])
                       | Inr _ \<Rightarrow> (None, tr3 @ [Call_ChatWithMessages messages])))))"

section \<open>The engineering manager\<close>

definition pollInterval :: nat where
  "pollInterval = 60"

definition maxAttempts :: nat where
  "maxAttempts = 100"

text \<open>
  The loop of \<^verbatim>\<open>WaitForReply\<close>, from the attempt it is about to make.  The inner loop
  over the comments returns the first comment that contains the tag.  \<^verbatim>\<open>pollInterval\<close>
  is in seconds.
\<close>

function wait_loop ::
  "env \<Rightarrow> card \<Rightarrow> string \<Rightarrow> nat \<Rightarrow> trace \<Rightarrow> (error + string) \<times> trace" where
  "wait_loop env ticket requiredTag attempt tr =
     (if attempt \<le> maxAttempts then
        (case ReadComments env ticket tr of
           (Inl err, tr1) \<Rightarrow> (Inl (Wrapped ''failed to read comments'' err), tr1)
         | (Inr comments, tr1) \<Rightarrow>
             (case find (\<lambda>comment. Contains comment requiredTag) comments of
                Some comment \<Rightarrow> (Inr comment, tr1)
              | None \<Rightarrow>
                  wait_loop env ticket requiredTag (attempt + 1)
                    (tr1 @ [Call_Sleep pollInterval])))
      else (Inl (Timeout requiredTag), tr))"
  by pat_completeness auto
termination
  by (relation "measure (\<lambda>(env, ticket, requiredTag, attempt, tr). Suc maxAttempts - attempt)")
    auto

definition WaitForReply :: "env \<Rightarrow> card \<Rightarrow> string \<Rightarrow> trace \<Rightarrow> (error + string) \<times> trace" where
  "WaitForReply env ticket requiredTag tr = wait_loop env ticket requiredTag 1 tr"

text \<open>
  The trace of \<open>k\<close> unsuccessful rounds of the poll: each round reads the comments of
  the ticket and then sleeps for the poll interval.
\<close>

definition polls :: "card \<Rightarrow> nat \<Rightarrow> trace" where
  "polls ticket k = concat (replicate k [Call_GetComments (ID ticket), Call_Sleep pollInterval])"

definition clarification_instruction :: string where
  "clarification_instruction =
     ''You are a highly skilled AI Engineering Manager agent. Your role is to confirm that the business requirements of this ticket are clear. You already know the best technical approaches, including libraries, design patterns, testing frameworks, coding standards, and all other technical details. Do NOT ask any questions about these technical matters.\<newline>'' @
     ''Do NOT ask about:\<newline>'' @
     ''- Commenting guidelines or documentation standards.\<newline>'' @
     ''- Performance benchmarks or optimizations.\<newline>'' @
     ''- Review processes, stakeholder impacts, or timelines.\<newline>'' @
     ''- Any technical details regarding libraries, design patterns, or testing frameworks.\<newline>'' @
     ''- Any summaries, headers, footers, unrelated comments.\<newline>'' @
     ''Only ask clarifying questions if there is any ambiguity in the business requirements. Do not ask about commenting guidelines, performance, review processes, stakeholder impacts, timelines, or any technical specifics.\<newline>'' @
     ''Ask concise questions about any missing business objectives. Make sure you really understand what the fuction is about to be ready to write technical tickets.''"

definition replyPrompt :: string where
  "replyPrompt =
     ''Given the following clarifications, create tenchnical clear a list of atomic technical tickets for the backend developer with only coding tasks. Each task should be clear and unambiguous, with a concise title. Each task should start with a title followed by new line and then have a precise technical specification for the developer.  I want the response to ONLY have actionable tickets withno additional fields, no general questins or comments, compact, precise. Each ticket should be separated one from eachother by \<newline>@@@@\<newline>''"

text \<open>
  The loop of \<^verbatim>\<open>HandleTicket\<close> over the parsed tasks, with the slice
  \<^verbatim>\<open>createdTickets\<close>: a ticket that cannot be created is logged and skipped.
\<close>

fun create_loop ::
  "env \<Rightarrow> string \<Rightarrow> task list \<Rightarrow> card list \<Rightarrow> trace \<Rightarrow> card list \<times> trace" where
  "create_loop env doingListID [] createdTickets tr = (createdTickets, tr)"
| "create_loop env doingListID (task # rest) createdTickets tr =
     (case CreateCard env tr (Title task) (Description task) doingListID of
        Inl err \<Rightarrow>
          create_loop env doingListID rest createdTickets
            (tr @ [Call_CreateCard (Title task) (Description task) doingListID])
      | Inr techTicket \<Rightarrow>
          create_loop env doingListID rest (createdTickets @ [techTicket])
            (tr @ [Call_CreateCard (Title task) (Description task) doingListID]))"

text \<open>The prompt of \<^verbatim>\<open>HandleTicket\<close> that asks the model for clarifications.\<close>

definition clarification_prompt :: "card \<Rightarrow> string" where
  "clarification_prompt ticket =
     (let ticketInfo =
            ''Ticket ID: '' @ ID ticket @ ''\<newline>Title: '' @ Name ticket @
            ''\<newline>Description: '' @ Desc ticket
      in ''Given the following ticket details:'' @ ticketInfo @ ''\<newline>'' @
         clarification_instruction)"

definition HandleTicket :: "env \<Rightarrow> AIAgent \<Rightarrow> card \<Rightarrow> trace \<Rightarrow> (error + card list) \<times> trace" where
  "HandleTicket env e ticket tr =
     (let prompt = clarification_prompt ticket in
      case Chat env tr prompt of
        Inl err \<Rightarrow> (Inl (Wrapped ''failed to generate clarifications'' err), tr @ [Call_Chat prompt])
      | Inr clarifications \<Rightarrow>
          let clarificationComment = clarifications @ ''\<newline>@bogoego'' in
          (case WriteComment env ticket clarificationComment (tr @ [Call_Chat prompt]) of
             (Some err, tr2) \<Rightarrow>
               (Inl (Wrapped ''failed to post clarification comment'' err), tr2)
           | (None, tr2) \<Rightarrow>
               (case WaitForReply env ticket (''@'' @ AgentName e) tr2 of
                  (Inl err, tr3) \<Rightarrow> (Inl (Wrapped ''failed to receive reply'' err), tr3)
                | (Inr reply, tr3) \<Rightarrow>
                    (case Chat env tr3 (reply @ ''\<newline>'' @ replyPrompt) of
                       Inl err \<Rightarrow>
                         (Inl (Wrapped ''failed to process reply with GPT'' err),
                          tr3 @ [Call_Chat (reply @ ''\<newline>'' @ replyPrompt)])
                     | Inr response \<Rightarrow>
                         let tr4 = tr3 @ [Call_Chat (reply @ ''\<newline>'' @ replyPrompt)] in
                         (case parseTasksFromResponse response of
                            Inl err \<Rightarrow> (Inl (Wrapped ''failed to parse tasks'' err), tr4)
                          | Inr tasksParsed \<Rightarrow>
                              (case GetListIDByName env tr4 ''Doing'' of
                                 Inl err \<Rightarrow>
                                   (Inl (Wrapped ''failed to get Doing list ID'' err),
                                    tr4 @ [Call_GetListIDByName ''Doing''])
                               | Inr doingListID \<Rightarrow>
                                   (case create_loop env doingListID tasksParsed []
                                           (tr4 @ [Call_GetListIDByName ''Doing'']) of
                                      (createdTickets, tr5) \<Rightarrow> (Inr createdTickets, tr5))))))))"

section \<open>The operations in the words of the specification\<close>

text \<open>
  A ticket is assigned to an agent when one of its member ids resolves to a member
  whose name equals the agent's name up to the case of letters.  \<open>resolve\<close> is the
  board's resolution of member ids.
\<close>

definition assigned_to ::
  "library \<Rightarrow> (string \<Rightarrow> error + member) \<Rightarrow> AIAgent \<Rightarrow> card \<Rightarrow> bool" where
  "assigned_to lib resolve a ticket \<longleftrightarrow>
     list_ex (\<lambda>memberID.
        case resolve memberID of
          Inl err \<Rightarrow> False
        | Inr member \<Rightarrow> EqualFold lib (Username member) (AgentName a))
       (IDMembers ticket)"

text \<open>
  The request for the child ticket of the \<open>i\<close>-th task, the trace of the requests for
  all tasks, and the cards of the requests that the board grants when they are made one
  after the other from the trace \<open>tr\<close>.
\<close>

definition creation :: "string \<Rightarrow> task \<Rightarrow> event" where
  "creation listID t = Call_CreateCard (Title t) (Description t) listID"

definition granted :: "env \<Rightarrow> string \<Rightarrow> task list \<Rightarrow> trace \<Rightarrow> nat \<Rightarrow> card list" where
  "granted env listID tasks tr i =
     (case CreateCard env (tr @ map (creation listID) (take i tasks))
             (Title (tasks ! i)) (Description (tasks ! i)) listID of
        Inl err \<Rightarrow> []
      | Inr created \<Rightarrow> [created])"

section \<open>Example environments\<close>

text \<open>
  An environment in which every call succeeds on an empty board, an agent and a
  ticket.  The examples below change one collaborator at a time.
\<close>

definition quiet_env :: env where
  "quiet_env =
     \<lparr>Chat = (\<lambda>tr prompt. Inr []),
      ChatWithMessages = (\<lambda>tr messages. Inr []),
      PostComment = (\<lambda>tr ticket comment. None),
      GetComments = (\<lambda>tr ticket. Inr []),
      GetListIDByName = (\<lambda>tr name. Inr name),
      CreateCard = (\<lambda>tr title desc listID.
        Inr \<lparr>ID = title, Name = title, Desc = desc, IDList = listID, IDMembers = []\<rparr>),
      GetBoard = (\<lambda>tr. Inr ''board''),
      GetCards = (\<lambda>tr board. Inr []),
      GetMember = (\<lambda>tr memberID. Inr \<lparr>Username = memberID\<rparr>),
      ReadAllFiles = (\<lambda>tr. Inr [])\<rparr>"

definition manager :: AIAgent where
  "manager = \<lparr>AgentName = ''bot'', Purpose = ''manager''\<rparr>"

definition ticket1 :: card where
  "ticket1 = \<lparr>ID = ''T1'', Name = ''Retries'', Desc = ''Add retries'', IDList = ''Todo'',
     IDMembers = [''m1'']\<rparr>"

definition ascii_library :: library where
  "ascii_library = \<lparr>EqualFold = ascii_EqualFold, Dir = (\<lambda>path. ''.'')\<rparr>"

text \<open>The reply arrives with the third read, among other comments.\<close>

definition reply_env :: env where
  "reply_env = quiet_env\<lparr>GetComments := (\<lambda>tr ticket.
     if length tr < 4 then Inr [''What is the goal?\<newline>@bogoego'']
     else Inr [''What is the goal?\<newline>@bogoego'', ''Retry thrice @bot'', ''No, twice @bot''])\<rparr>"

text \<open>The board fails at the second read.\<close>

definition failing_env :: env where
  "failing_env = quiet_env\<lparr>GetComments := (\<lambda>tr ticket.
     if length tr < 2 then Inr [''What is the goal?\<newline>@bogoego'']
     else Inl (External ''board unavailable''))\<rparr>"

text \<open>A board with one card in the list of the guidance tickets.\<close>

definition guide1 :: card where
  "guide1 = \<lparr>ID = ''G1'', Name = ''Style'', Desc = ''Use gofmt'', IDList = ''IMPORTANT'',
     IDMembers = []\<rparr>"

definition guidance_env :: env where
  "guidance_env = quiet_env\<lparr>GetCards := (\<lambda>tr board. Inr [guide1])\<rparr>"

text \<open>
  A board with three tickets.  The member of the first is the agent in capitals, the
  member of the second has another name, and of the two members of the third the first
  cannot be resolved and the second is the agent.
\<close>

definition ticket2 :: card where
  "ticket2 = \<lparr>ID = ''T2'', Name = ''Logging'', Desc = ''Add logs'', IDList = ''Todo'',
     IDMembers = [''m4'']\<rparr>"

definition ticket3 :: card where
  "ticket3 = \<lparr>ID = ''T3'', Name = ''Metrics'', Desc = ''Add metrics'', IDList = ''Todo'',
     IDMembers = [''m2'', ''m3'']\<rparr>"

definition members :: "string \<Rightarrow> error + member" where
  "members memberID =
     (if memberID = ''m1'' then Inr \<lparr>Username = ''BOT''\<rparr>
      else if memberID = ''m2'' then Inl (External ''member unavailable'')
      else if memberID = ''m3'' then Inr \<lparr>Username = ''Bot''\<rparr>
      else Inr \<lparr>Username = ''robot''\<rparr>)"

definition board_env :: env where
  "board_env = quiet_env\<lparr>GetCards := (\<lambda>tr board. Inr [ticket1, ticket2, ticket3]),
     GetMember := (\<lambda>tr. members)\<rparr>"

text \<open>The failures of one collaborator each.\<close>

definition board_down_env :: env where
  "board_down_env = quiet_env\<lparr>GetBoard := (\<lambda>tr. Inl (External ''board unavailable''))\<rparr>"

definition cards_down_env :: env where
  "cards_down_env = quiet_env\<lparr>GetCards := (\<lambda>tr board. Inl (External ''cards unavailable''))\<rparr>"

definition repo_down_env :: env where
  "repo_down_env = board_env\<lparr>ReadAllFiles := (\<lambda>tr. Inl (External ''no repository''))\<rparr>"

definition model_down_env :: env where
  "model_down_env = board_env\<lparr>Chat := (\<lambda>tr prompt. Inl (External ''model unavailable''))\<rparr>"

definition members_down_env :: env where
  "members_down_env = quiet_env\<lparr>GetCards := (\<lambda>tr board. Inr [ticket1]),
     GetMember := (\<lambda>tr memberID. Inl (External ''member unavailable''))\<rparr>"

text \<open>
  The model asks a question and, once it has the reply, names three tasks; the reply
  is on the board at the first read; the board rejects the card of the second task.
\<close>

definition handle_env :: env where
  "handle_env = quiet_env\<lparr>
     Chat := (\<lambda>tr prompt.
       if tr = [] then Inr ''Which retries?''
       else Inr ''A\<newline>@@@@\<newline>B\<newline>x\<newline>@@@@\<newline>C''),
     GetComments := (\<lambda>tr ticket. Inr [''Three retries @bot'']),
     CreateCard := (\<lambda>tr title desc listID.
       if title = ''B'' then Inl (External ''card rejected'')
       else Inr \<lparr>ID = title, Name = title, Desc = desc, IDList = listID, IDMembers = []\<rparr>)\<rparr>"

section \<open>Properties of the string functions\<close>

declare TrimLeft.simps [simp del] TrimRight.simps [simp del] Split.simps [simp del]

lemma Index_None_iff: "Index s substr = None \<longleftrightarrow> \<not> sublist substr s"
proof (induction s)
  case Nil
  then show ?case by simp
next
  case (Cons c cs)
  then show ?case by (auto simp: sublist_Cons_right)
qed

lemma Split_no_sep: "\<not> sublist sep s \<Longrightarrow> Split s sep = [s]"
  using Index_None_iff [of s sep] by (simp add: Split.simps)

lemma spaces_prefix_free:
  "e \<in> set unicode_spaces \<Longrightarrow> e' \<in> set unicode_spaces \<Longrightarrow> prefix e (e' @ r) \<Longrightarrow> e = e'"
  unfolding unicode_spaces_def by (simp, elim disjE; simp)

lemma leading_space_None_iff:
  "leading_space s = None \<longleftrightarrow> (\<forall>e \<in> set unicode_spaces. \<not> prefix e s)"
  by (auto simp: leading_space_def find_None_iff)

lemma trailing_space_None_iff:
  "trailing_space s = None \<longleftrightarrow> (\<forall>e \<in> set unicode_spaces. \<not> suffix e s)"
  by (auto simp: trailing_space_def find_None_iff)

lemma leading_space_append:
  assumes "e \<in> set unicode_spaces"
  shows "leading_space (e @ r) = Some e"
proof (cases "leading_space (e @ r)")
  case None
  with assms show ?thesis by (auto simp: leading_space_None_iff)
next
  case (Some e')
  then have "e' \<in> set unicode_spaces" "prefix e' (e @ r)"
    by (auto dest: leading_space_SomeD)
  with assms have "e' = e" by (auto dest: spaces_prefix_free)
  with Some show ?thesis by simp
qed

lemma TrimLeft_None: "leading_space s = None \<Longrightarrow> TrimLeft s = s"
  by (simp add: TrimLeft.simps)

lemma TrimRight_None: "trailing_space s = None \<Longrightarrow> TrimRight s = s"
  by (simp add: TrimRight.simps)

lemma leading_space_Nil: "leading_space [] = None"
  by (auto simp: leading_space_None_iff dest: unicode_spaces_nonempty)

lemma trailing_space_Nil: "trailing_space [] = None"
  by (auto simp: trailing_space_None_iff dest: unicode_spaces_nonempty)

lemma TrimLeft_Nil: "TrimLeft [] = []"
  by (simp add: TrimLeft_None leading_space_Nil)

lemma TrimRight_Nil: "TrimRight [] = []"
  by (simp add: TrimRight_None trailing_space_Nil)

lemma TrimSpace_Nil: "TrimSpace [] = []"
  by (simp add: TrimSpace_def TrimLeft_Nil TrimRight_Nil)

lemma TrimLeft_space_append:
  "e \<in> set unicode_spaces \<Longrightarrow> TrimLeft (e @ r) = TrimLeft r"
  by (subst TrimLeft.simps) (simp add: leading_space_append)

lemma TrimLeft_concat:
  "set ws \<subseteq> set unicode_spaces \<Longrightarrow> TrimLeft (concat ws) = []"
  by (induction ws) (simp_all add: TrimLeft_Nil TrimLeft_space_append)

lemma leading_space_TrimLeft: "leading_space (TrimLeft s) = None"
proof (induction s rule: TrimLeft.induct)
  case (1 s)
  show ?case
  proof (cases "leading_space s")
    case None
    then show ?thesis by (simp add: TrimLeft_None)
  next
    case (Some e)
    with 1 show ?thesis by (subst TrimLeft.simps) simp
  qed
qed

lemma trailing_space_TrimRight: "trailing_space (TrimRight s) = None"
proof (induction s rule: TrimRight.induct)
  case (1 s)
  show ?case
  proof (cases "trailing_space s")
    case None
    then show ?thesis by (simp add: TrimRight_None)
  next
    case (Some e)
    with 1 show ?thesis by (subst TrimRight.simps) simp
  qed
qed

lemma prefix_TrimRight: "prefix (TrimRight s) s"
proof (induction s rule: TrimRight.induct)
  case (1 s)
  show ?case
  proof (cases "trailing_space s")
    case None
    then show ?thesis by (simp add: TrimRight_None)
  next
    case (Some e)
    with 1 have "prefix (TrimRight (take (length s - length e) s)) (take (length s - length e) s)"
      by simp
    moreover have "prefix (take (length s - length e) s) s"
      by (rule take_is_prefix)
    ultimately have "prefix (TrimRight (take (length s - length e) s)) s"
      by (rule prefix_order.trans)
    with Some show ?thesis by (subst TrimRight.simps) simp
  qed
qed

lemma leading_space_prefix:
  "leading_space s = None \<Longrightarrow> prefix t s \<Longrightarrow> leading_space t = None"
  by (auto simp: leading_space_None_iff dest: prefix_order.trans)

lemma TrimRight_nonempty:
  "leading_space s = None \<Longrightarrow> s \<noteq> [] \<Longrightarrow> TrimRight s \<noteq> []"
proof (induction s rule: TrimRight.induct)
  case (1 s)
  show ?case
  proof (cases "trailing_space s")
    case None
    with 1 show ?thesis by (simp add: TrimRight_None)
  next
    case (Some e)
    then have e: "e \<in> set unicode_spaces" "suffix e s"
      by (auto dest: trailing_space_SomeD)
    let ?s' = "take (length s - length e) s"
    from e have s: "s = ?s' @ e"
      by (auto simp: suffix_def)
    have "?s' \<noteq> []"
    proof
      assume "?s' = []"
      with s have "s = e" by simp
      with e have "prefix e s" by simp
      with e "1.prems" show False by (auto simp: leading_space_None_iff)
    qed
    moreover have "leading_space ?s' = None"
      using "1.prems"(1) take_is_prefix by (rule leading_space_prefix)
    ultimately have "TrimRight ?s' \<noteq> []"
      using "1.IH" Some by simp
    with Some show ?thesis by (subst TrimRight.simps) simp
  qed
qed

lemma TrimSpace_fixed:
  assumes "t = TrimSpace s"
  shows "leading_space t = None" and "trailing_space t = None" and "TrimSpace t = t"
proof -
  show l: "leading_space t = None"
    unfolding assms TrimSpace_def
    using leading_space_TrimLeft prefix_TrimRight by (rule leading_space_prefix)
  show r: "trailing_space t = None"
    unfolding assms TrimSpace_def by (rule trailing_space_TrimRight)
  from l r show "TrimSpace t = t"
    by (simp add: TrimSpace_def TrimLeft_None TrimRight_None)
qed

lemma TrimSpace_nonempty:
  "leading_space s = None \<Longrightarrow> s \<noteq> [] \<Longrightarrow> TrimSpace s \<noteq> []"
  by (simp add: TrimSpace_def TrimLeft_None TrimRight_nonempty)

section \<open>Properties of the parser\<close>

lemma Split_nonempty: "Split s sep \<noteq> []"
  by (subst Split.simps) (simp split: option.splits)

lemma Split_Some:
  "Index s sep = Some i \<Longrightarrow> sep \<noteq> [] \<Longrightarrow>
     Split s sep = take i s # Split (drop (i + length sep) s) sep"
  by (subst Split.simps) simp

lemma Join_Cons: "xs \<noteq> [] \<Longrightarrow> Join (x # xs) sep = x @ sep @ Join xs sep"
  by (cases xs) simp_all

lemma Join_Split: "sep \<noteq> [] \<Longrightarrow> Join (Split s sep) sep = s"
proof (induction s sep rule: Split.induct)
  case (1 s sep)
  show ?case
  proof (cases "Index s sep")
    case None
    then show ?thesis by (subst Split.simps) simp
  next
    case (Some i)
    then have "prefix sep (drop i s)"
      by (auto dest: Index_SomeD)
    then obtain r where r: "drop i s = sep @ r"
      by (auto simp: prefix_def)
    then have "drop (i + length sep) s = r"
      by (metis add.commute append_eq_conv_conj drop_drop)
    moreover from "1.IH" [OF Some] "1.prems"
    have "Join (Split (drop (i + length sep) s) sep) sep = drop (i + length sep) s"
      by simp
    ultimately have "Join (Split s sep) sep = take i s @ sep @ r"
      using Some "1.prems" by (simp add: Split_Some Join_Cons Split_nonempty)
    also have "\<dots> = take i s @ drop i s"
      using r by simp
    finally show ?thesis by simp
  qed
qed

lemma Index_single:
  "Index s [c] = (if c \<in> set s then Some (length (takeWhile (\<lambda>x. x \<noteq> c) s)) else None)"
  by (induction s) auto

lemma parse_blocks_eq:
  "parse_blocks blocks tasks =
     tasks @ map block_task (filter (\<lambda>b. b \<noteq> []) (map TrimSpace blocks))"
  by (induction blocks arbitrary: tasks)
    (simp_all add: Let_def block_task_def Split_nonempty)

lemma block_task_eq:
  "block_task b = \<lparr>Title = TrimSpace (first_line b), Description = TrimSpace (remaining_lines b)\<rparr>"
proof (cases "CHR 0x0A \<in> set b")
  case False
  then have "Index b newline = None" "first_line b = b"
    by (auto simp: Index_single newline_def first_line_def)
  then show ?thesis
    by (simp add: block_task_def Split.simps remaining_lines_def TrimSpace_Nil)
next
  case True
  let ?i = "length (first_line b)"
  from True have i: "Index b newline = Some ?i"
    by (simp add: Index_single newline_def first_line_def)
  then have split: "Split b newline = take ?i b # Split (drop (?i + 1) b) newline"
    by (simp add: Split_Some newline_def)
  have "take ?i b = first_line b"
    by (simp add: first_line_def takeWhile_eq_take [symmetric])
  moreover have "Join (Split (drop (?i + 1) b) newline) newline = remaining_lines b"
    by (simp add: Join_Split newline_def remaining_lines_def)
  ultimately show ?thesis
    using split by (simp add: block_task_def Let_def Split_nonempty)
qed

lemma first_line_nonempty:
  assumes "leading_space b = None" and "b \<noteq> []"
  shows "leading_space (first_line b) = None" and "first_line b \<noteq> []"
proof -
  have "prefix (first_line b) b"
    unfolding first_line_def by (metis prefixI takeWhile_dropWhile_id)
  with assms show "leading_space (first_line b) = None"
    by (auto intro: leading_space_prefix)
  from assms obtain c cs where b: "b = c # cs"
    by (cases b) auto
  have "[CHR 0x0A] \<in> set unicode_spaces"
    by (simp add: unicode_spaces_def)
  with assms(1) have "\<not> prefix [CHR 0x0A] b"
    by (auto simp: leading_space_None_iff)
  with b have "c \<noteq> CHR 0x0A" by auto
  with b show "first_line b \<noteq> []"
    by (simp add: first_line_def)
qed

lemma title_nonempty:
  assumes "well_formed segment"
  shows "Title (segment_task segment) \<noteq> []"
    and "TrimSpace (Title (segment_task segment)) = Title (segment_task segment)"
proof -
  let ?b = "TrimSpace segment"
  have "leading_space ?b = None"
    by (rule TrimSpace_fixed(1)) simp
  moreover from assms have "?b \<noteq> []"
    by (simp add: well_formed_def)
  ultimately have "leading_space (first_line ?b) = None" "first_line ?b \<noteq> []"
    by (rule first_line_nonempty)+
  then show "Title (segment_task segment) \<noteq> []"
    by (simp add: segment_task_def TrimSpace_nonempty)
  show "TrimSpace (Title (segment_task segment)) = Title (segment_task segment)"
    unfolding segment_task_def by (simp add: TrimSpace_fixed(3))
qed

lemma parse_eq_segments:
  "parseTasksFromResponse text = Inr (map segment_task (filter well_formed (segments text)))"
proof -
  have "map block_task (filter (\<lambda>b. b \<noteq> []) (map TrimSpace blocks)) =
        map segment_task (filter well_formed blocks)" for blocks
    by (induction blocks) (simp_all add: well_formed_def segment_task_def block_task_eq)
  then show ?thesis
    by (simp add: parseTasksFromResponse_def parse_blocks_eq segments_def)
qed

subsection \<open>Joining segments and splitting them again\<close>

lemma Index_first:
  "prefix substr (drop i s) \<Longrightarrow> i \<le> length s \<Longrightarrow> \<forall>j<i. \<not> prefix substr (drop j s) \<Longrightarrow>
     Index s substr = Some i"
proof (induction s arbitrary: i)
  case Nil
  then show ?case by simp
next
  case (Cons c cs)
  show ?case
  proof (cases i)
    case 0
    with Cons.prems show ?thesis by simp
  next
    case (Suc k)
    with Cons.prems have "\<not> prefix substr (c # cs)"
      by (auto dest: spec [of _ 0])
    moreover from Cons.prems Suc have "\<forall>j<k. \<not> prefix substr (drop j cs)"
      by (auto dest: spec [of _ "Suc _"])
    with Cons.prems Suc Cons.IH [of k] have "Index cs substr = Some k"
      by simp
    ultimately show ?thesis using Suc by simp
  qed
qed

lemma no_delimiter_inside:
  assumes "\<not> sublist ''@@@@'' u" and "u \<noteq> []"
  shows "\<not> prefix delimiter (u @ delimiter @ r)"
proof
  assume p: "prefix delimiter (u @ delimiter @ r)"
  from assms(2) obtain c u1 where u: "u = c # u1" by (cases u) auto
  show False
  proof (cases "length u1 < 4")
    case True
    then consider "u1 = []" | a where "u1 = [a]" | a b where "u1 = [a, b]"
      | a b d where "u1 = [a, b, d]"
      by (cases u1; cases "tl u1"; cases "tl (tl u1)"; cases "tl (tl (tl u1))") auto
    then show False
      using p u by cases (simp_all add: delimiter_def)
  next
    case False
    then obtain a b d e u2 where "u1 = a # b # d # e # u2"
      by (cases u1; cases "tl u1"; cases "tl (tl u1)"; cases "tl (tl (tl u1))") auto
    with p u have "u = c # ''@@@@'' @ u2"
      by (auto simp: delimiter_def)
    then have "sublist ''@@@@'' u"
      by (simp add: sublist_Cons_right)
    with assms(1) show False by simp
  qed
qed

lemma Split_Join:
  assumes "segs \<noteq> []" and "\<forall>s \<in> set segs. \<not> sublist ''@@@@'' s"
  shows "Split (Join segs delimiter) delimiter = segs"
  using assms
proof (induction segs rule: induct_list012)
  case 1
  then show ?case by simp
next
  case One: (2 x)
  have "sublist ''@@@@'' delimiter"
    unfolding delimiter_def sublist_def by (rule exI [of _ "''\<newline>''"], rule exI [of _ "''\<newline>''"]) simp
  with One have "\<not> sublist delimiter x"
    by (auto dest: sublist_order.order_trans)
  then show ?case by (simp add: Split_no_sep)
next
  case More: (3 x y ys)
  let ?J = "Join (y # ys) delimiter"
  have "Index (x @ delimiter @ ?J) delimiter = Some (length x)"
  proof (rule Index_first)
    show "prefix delimiter (drop (length x) (x @ delimiter @ ?J))" by simp
    show "length x \<le> length (x @ delimiter @ ?J)" by simp
    show "\<forall>j<length x. \<not> prefix delimiter (drop j (x @ delimiter @ ?J))"
    proof (intro allI impI)
      fix j assume j: "j < length x"
      have "sublist (drop j x) x"
        by (rule sublist_drop)
      with More.prems have "\<not> sublist ''@@@@'' (drop j x)"
        by (auto dest: sublist_order.order_trans)
      moreover from j have "drop j x \<noteq> []" by simp
      ultimately have "\<not> prefix delimiter (drop j x @ delimiter @ ?J)"
        by (rule no_delimiter_inside)
      with j show "\<not> prefix delimiter (drop j (x @ delimiter @ ?J))" by simp
    qed
  qed
  then have "Split (x @ delimiter @ ?J) delimiter = x # Split ?J delimiter"
    by (simp add: Split_Some delimiter_def)
  with More show ?case by simp
qed

section \<open>The claims about the parser\<close>

lemma sublist_delimiter_at: "sublist delimiter s \<Longrightarrow> CHR ''@'' \<in> set s"
  by (auto simp: sublist_def delimiter_def)

lemma no_at_in_spaces: "set ws \<subseteq> set unicode_spaces \<Longrightarrow> CHR ''@'' \<notin> set (concat ws)"
  by (induction ws) (auto simp: unicode_spaces_def)

lemma TrimSpace_spaces: "set ws \<subseteq> set unicode_spaces \<Longrightarrow> TrimSpace (concat ws) = []"
  by (simp add: TrimSpace_def TrimLeft_concat TrimRight_Nil)

text \<open>
  Claim C8.  The parser is total and never fails: for every response it returns a
  sequence of tasks and no error.  For the empty response, and for a response that
  consists of white space runes only, the sequence is empty.
\<close>

theorem parse_total:
  "(\<exists>tasks. parseTasksFromResponse response = Inr tasks) \<and>
   parseTasksFromResponse [] = Inr [] \<and>
   (set ws \<subseteq> set unicode_spaces \<longrightarrow> parseTasksFromResponse (concat ws) = Inr [])"
proof (intro conjI impI)
  show "\<exists>tasks. parseTasksFromResponse response = Inr tasks"
    by (simp add: parseTasksFromResponse_def)
  have "\<not> sublist delimiter []"
    by (simp add: delimiter_def)
  then show "parseTasksFromResponse [] = Inr []"
    by (simp add: parse_eq_segments segments_def Split_no_sep well_formed_def TrimSpace_Nil)
  assume ws: "set ws \<subseteq> set unicode_spaces"
  then have "\<not> sublist delimiter (concat ws)"
    using no_at_in_spaces sublist_delimiter_at by blast
  with ws show "parseTasksFromResponse (concat ws) = Inr []"
    by (simp add: parse_eq_segments segments_def Split_no_sep well_formed_def TrimSpace_spaces)
qed

theorem parse_total_witness:
  "parseTasksFromResponse ''   \<newline>\<newline>'' = Inr [] \<and> parseTasksFromResponse '''' = Inr []"
  using parse_total [of "[]" "['' '', '' '', '' '', ''\<newline>'', ''\<newline>'']"]
  by (simp add: unicode_spaces_def)

text \<open>
  Claim C7.  A response in which the delimiter does not occur and which is not empty
  after trimming yields exactly one task.  Its title is the first line of the trimmed
  response, trimmed; its description is the text after the first line, trimmed, which
  is what remains when the further lines are joined with newlines again.  With no
  further line the description is empty and the title is the whole trimmed response.
\<close>

theorem parse_no_delimiter:
  assumes "\<not> Contains response delimiter" and "TrimSpace response \<noteq> []"
  shows "parseTasksFromResponse response =
           Inr [\<lparr>Title = TrimSpace (first_line (TrimSpace response)),
                 Description = TrimSpace (remaining_lines (TrimSpace response))\<rparr>] \<and>
         (CHR 0x0A \<notin> set (TrimSpace response) \<longrightarrow>
           parseTasksFromResponse response =
             Inr [\<lparr>Title = TrimSpace response, Description = []\<rparr>])"
proof (intro conjI impI)
  from assms show 1: "parseTasksFromResponse response =
           Inr [\<lparr>Title = TrimSpace (first_line (TrimSpace response)),
                 Description = TrimSpace (remaining_lines (TrimSpace response))\<rparr>]"
    by (simp add: parse_eq_segments segments_def Contains_def Split_no_sep well_formed_def
        segment_task_def)
  assume "CHR 0x0A \<notin> set (TrimSpace response)"
  then have "first_line (TrimSpace response) = TrimSpace response"
    by (auto simp: first_line_def)
  then show "parseTasksFromResponse response =
             Inr [\<lparr>Title = TrimSpace response, Description = []\<rparr>]"
    using 1 by (simp add: remaining_lines_def TrimSpace_Nil TrimSpace_fixed(3))
qed

theorem parse_no_delimiter_witness:
  "\<not> Contains ''Add retry\<newline>Implement exponential backoff\<newline>Add unit test'' delimiter \<and>
   TrimSpace ''Add retry\<newline>Implement exponential backoff\<newline>Add unit test'' \<noteq> [] \<and>
   parseTasksFromResponse ''Add retry\<newline>Implement exponential backoff\<newline>Add unit test'' =
     Inr [\<lparr>Title = ''Add retry'',
           Description = ''Implement exponential backoff\<newline>Add unit test''\<rparr>]"
proof -
  let ?r = "''Add retry\<newline>Implement exponential backoff\<newline>Add unit test''"
  have 1: "\<not> Contains ?r delimiter" by code_simp
  have 2: "TrimSpace ?r \<noteq> []" by code_simp
  have 3: "TrimSpace (first_line (TrimSpace ?r)) = ''Add retry''" by code_simp
  have 4: "TrimSpace (remaining_lines (TrimSpace ?r)) =
             ''Implement exponential backoff\<newline>Add unit test''" by code_simp
  from parse_no_delimiter [OF 1 2] 1 2 3 4 show ?thesis by simp
qed

text \<open>
  Claim C1.  Let \<open>good\<close> be the segments between the delimiters of a text that are not
  empty after trimming, in the order of the text, and \<open>n\<close> their number.  The parser
  returns exactly \<open>n\<close> tasks, the \<open>i\<close>-th task is the one read from the \<open>i\<close>-th of these
  segments, and the title of every task is not empty after trimming.  The segments of
  a text are the pieces it was joined from with the delimiter, when no piece contains
  the four characters of the delimiter's line.
\<close>

theorem parse_segments:
  assumes "good = filter well_formed (segments text)"
  shows "(\<exists>tasks. parseTasksFromResponse text = Inr tasks \<and>
           length tasks = length good \<and>
           (\<forall>i < length good. tasks ! i = segment_task (good ! i)) \<and>
           (\<forall>t \<in> set tasks. TrimSpace (Title t) \<noteq> [])) \<and>
         (pieces \<noteq> [] \<and> (\<forall>s \<in> set pieces. \<not> Contains s ''@@@@'') \<longrightarrow>
           segments (Join pieces delimiter) = pieces)"
proof (intro conjI impI)
  let ?tasks = "map segment_task good"
  have "TrimSpace (Title t) \<noteq> []" if "t \<in> set ?tasks" for t
  proof -
    from that obtain g where "g \<in> set good" "t = segment_task g"
      by auto
    with assms have "well_formed g" by simp
    with \<open>t = segment_task g\<close> show ?thesis
      by (simp add: title_nonempty)
  qed
  then show "\<exists>tasks. parseTasksFromResponse text = Inr tasks \<and>
           length tasks = length good \<and>
           (\<forall>i < length good. tasks ! i = segment_task (good ! i)) \<and>
           (\<forall>t \<in> set tasks. TrimSpace (Title t) \<noteq> [])"
    using assms by (simp add: parse_eq_segments)
next
  assume "pieces \<noteq> [] \<and> (\<forall>s \<in> set pieces. \<not> Contains s ''@@@@'')"
  then show "segments (Join pieces delimiter) = pieces"
    by (simp add: segments_def Contains_def Split_Join)
qed

theorem parse_segments_witness:
  "segments ''A\<newline>@@@@\<newline>B\<newline>x\<newline>@@@@\<newline>'' = [''A'', ''B\<newline>x'', []] \<and>
   filter well_formed [''A'', ''B\<newline>x'', []] = [''A'', ''B\<newline>x''] \<and>
   parseTasksFromResponse ''A\<newline>@@@@\<newline>B\<newline>x\<newline>@@@@\<newline>'' =
     Inr [\<lparr>Title = ''A'', Description = []\<rparr>, \<lparr>Title = ''B'', Description = ''x''\<rparr>]"
proof -
  let ?T = "''A\<newline>@@@@\<newline>B\<newline>x\<newline>@@@@\<newline>''"
  let ?pieces = "[''A'', ''B\<newline>x'', []]"
  let ?good = "[''A'', ''B\<newline>x'']"
  have j: "Join ?pieces delimiter = ?T"
    by (simp add: delimiter_def)
  have p: "?pieces \<noteq> [] \<and> (\<forall>s \<in> set ?pieces. \<not> Contains s ''@@@@'')"
    by code_simp
  have f: "filter well_formed ?pieces = ?good"
    by code_simp
  from parse_segments [OF refl, of ?T ?pieces] p j
  have s: "segments ?T = ?pieces"
    by simp
  with f have g: "?good = filter well_formed (segments ?T)"
    by simp
  from parse_segments [OF g] obtain tasks where
    t: "parseTasksFromResponse ?T = Inr tasks" "length tasks = length ?good"
       "\<forall>i < length ?good. tasks ! i = segment_task (?good ! i)"
    by blast
  have s0: "segment_task ''A'' = \<lparr>Title = ''A'', Description = []\<rparr>" by code_simp
  have s1: "segment_task ''B\<newline>x'' = \<lparr>Title = ''B'', Description = ''x''\<rparr>" by code_simp
  from t(3) have "tasks ! 0 = segment_task ''A''" "tasks ! 1 = segment_task ''B\<newline>x''"
    by auto
  with t(2) s0 s1
  have "tasks = [\<lparr>Title = ''A'', Description = []\<rparr>, \<lparr>Title = ''B'', Description = ''x''\<rparr>]"
    by (simp add: list_eq_iff_nth_eq less_Suc_eq)
  with t(1) s f show ?thesis by simp
qed

section \<open>The claims about the clarification poll\<close>

declare wait_loop.simps [simp del]

lemma find_None_Contains:
  "find (\<lambda>c. Contains c tag) cs = None \<longleftrightarrow> (\<forall>c \<in> set cs. \<not> Contains c tag)"
  by (auto simp: find_None_iff)

lemma count_reads:
  "length (filter (\<lambda>e. e = Call_GetComments i)
     (concat (replicate n [Call_GetComments i, Call_Sleep p]))) = n"
  by (induction n) simp_all

lemma find_first_Contains:
  "\<forall>c \<in> set before. \<not> Contains c tag \<Longrightarrow> Contains reply tag \<Longrightarrow>
     find (\<lambda>c. Contains c tag) (before @ reply # after) = Some reply"
  by (induction before) simp_all

lemma polls_Suc:
  "polls ticket (Suc k) = [Call_GetComments (ID ticket), Call_Sleep pollInterval] @ polls ticket k"
  by (simp add: polls_def)

lemma polls_0: "polls ticket 0 = []"
  by (simp add: polls_def)

lemma wait_loop_rounds:
  assumes "\<forall>j<k. \<exists>cs. GetComments env (tr @ polls ticket j) ticket = Inr cs \<and>
             (\<forall>c \<in> set cs. \<not> Contains c tag)"
    and "attempt + k \<le> Suc maxAttempts"
  shows "wait_loop env ticket tag attempt tr =
           wait_loop env ticket tag (attempt + k) (tr @ polls ticket k)"
  using assms
proof (induction k arbitrary: attempt tr)
  case 0
  then show ?case by (simp add: polls_0)
next
  case (Suc k)
  let ?tr' = "tr @ [Call_GetComments (ID ticket), Call_Sleep pollInterval]"
  from Suc.prems(1) obtain cs where cs: "GetComments env tr ticket = Inr cs"
      "\<forall>c \<in> set cs. \<not> Contains c tag"
    by (auto simp: polls_0 dest: spec [of _ 0])
  from Suc.prems(2) have "attempt \<le> maxAttempts" by simp
  with cs have "wait_loop env ticket tag attempt tr = wait_loop env ticket tag (Suc attempt) ?tr'"
    by (subst wait_loop.simps) (simp add: ReadComments_def find_None_Contains [THEN iffD2])
  also have "\<dots> = wait_loop env ticket tag (Suc attempt + k) (?tr' @ polls ticket k)"
  proof (rule Suc.IH)
    show "\<forall>j<k. \<exists>cs. GetComments env (?tr' @ polls ticket j) ticket = Inr cs \<and>
             (\<forall>c \<in> set cs. \<not> Contains c tag)"
      using Suc.prems(1) by (auto simp: polls_Suc dest: spec [of _ "Suc _"])
    show "Suc attempt + k \<le> Suc maxAttempts"
      using Suc.prems(2) by simp
  qed
  finally show ?case by (simp add: polls_Suc)
qed

lemma wait_loop_match:
  assumes "attempt \<le> maxAttempts"
    and "GetComments env tr ticket = Inr (before @ reply # after)"
    and "\<forall>c \<in> set before. \<not> Contains c tag" and "Contains reply tag"
  shows "wait_loop env ticket tag attempt tr = (Inr reply, tr @ [Call_GetComments (ID ticket)])"
  using assms by (subst wait_loop.simps) (simp add: ReadComments_def find_first_Contains)

lemma wait_loop_read_error:
  assumes "attempt \<le> maxAttempts" and "GetComments env tr ticket = Inl err"
  shows "wait_loop env ticket tag attempt tr =
           (Inl (Wrapped ''failed to read comments'' err), tr @ [Call_GetComments (ID ticket)])"
  using assms by (subst wait_loop.simps) (simp add: ReadComments_def)

lemma wait_loop_exhausted:
  "maxAttempts < attempt \<Longrightarrow> wait_loop env ticket tag attempt tr = (Inl (Timeout tag), tr)"
  by (subst wait_loop.simps) simp

text \<open>
  Claim C2.  Let the first \<open>k\<close> reads of the comments succeed with no comment that
  contains the tag, and let the next read (still within the attempts) return comments
  of which \<open>reply\<close> is the first in board order to contain the tag, whatever comes after
  it.  Then \<^const>\<open>WaitForReply\<close> returns \<open>reply\<close>, and the trace ends with that read:
  \<open>k\<close> rounds of read and sleep, one more read, and no sleep or read after the match.
\<close>

theorem WaitForReply_first_match:
  assumes "k < maxAttempts"
    and "\<forall>j<k. \<exists>cs. GetComments env (tr @ polls ticket j) ticket = Inr cs \<and>
           (\<forall>c \<in> set cs. \<not> Contains c tag)"
    and "GetComments env (tr @ polls ticket k) ticket = Inr (before @ reply # after)"
    and "\<forall>c \<in> set before. \<not> Contains c tag"
    and "Contains reply tag"
  shows "WaitForReply env ticket tag tr =
           (Inr reply, tr @ polls ticket k @ [Call_GetComments (ID ticket)])"
proof -
  from assms(1) have "1 + k \<le> Suc maxAttempts" "1 + k \<le> maxAttempts"
    by simp_all
  with assms(2) have "WaitForReply env ticket tag tr =
      wait_loop env ticket tag (1 + k) (tr @ polls ticket k)"
    unfolding WaitForReply_def by (intro wait_loop_rounds)
  also have "\<dots> = (Inr reply, (tr @ polls ticket k) @ [Call_GetComments (ID ticket)])"
    using \<open>1 + k \<le> maxAttempts\<close> assms(3-5) by (rule wait_loop_match)
  finally show ?thesis by simp
qed

theorem WaitForReply_first_match_witness:
  "WaitForReply reply_env ticket1 ''@bot'' [] =
     (Inr ''Retry thrice @bot'',
      [Call_GetComments ''T1'', Call_Sleep 60, Call_GetComments ''T1'', Call_Sleep 60,
       Call_GetComments ''T1''])"
proof -
  have c1: "\<not> Contains ''What is the goal?\<newline>@bogoego'' ''@bot''" by code_simp
  have c2: "Contains ''Retry thrice @bot'' ''@bot''" by code_simp
  have p: "polls ticket1 2 =
      [Call_GetComments ''T1'', Call_Sleep 60, Call_GetComments ''T1'', Call_Sleep 60]"
    by (simp add: polls_def ticket1_def pollInterval_def numeral_2_eq_2)
  have 1: "2 < maxAttempts" by (simp add: maxAttempts_def)
  have 2: "\<forall>j<2. \<exists>cs. GetComments reply_env ([] @ polls ticket1 j) ticket1 = Inr cs \<and>
           (\<forall>c \<in> set cs. \<not> Contains c ''@bot'')"
  proof (intro allI impI)
    fix j :: nat
    assume "j < 2"
    then have "j = 0 \<or> j = 1" by auto
    then show "\<exists>cs. GetComments reply_env ([] @ polls ticket1 j) ticket1 = Inr cs \<and>
           (\<forall>c \<in> set cs. \<not> Contains c ''@bot'')"
      using c1 by (auto simp: reply_env_def quiet_env_def polls_def)
  qed
  have 3: "GetComments reply_env ([] @ polls ticket1 2) ticket1 =
      Inr ([''What is the goal?\<newline>@bogoego''] @ ''Retry thrice @bot'' # [''No, twice @bot''])"
    by (simp add: p reply_env_def quiet_env_def)
  have 4: "\<forall>c \<in> set [''What is the goal?\<newline>@bogoego'']. \<not> Contains c ''@bot''"
    using c1 by simp
  from WaitForReply_first_match [OF 1 2 3 4 c2] p show ?thesis
    by (simp add: ticket1_def)
qed

lemma WaitForReply_quiet:
  assumes "\<forall>j<maxAttempts. \<exists>cs. GetComments env (tr @ polls ticket j) ticket = Inr cs \<and>
           (\<forall>c \<in> set cs. \<not> Contains c tag)"
  shows "WaitForReply env ticket tag tr = (Inl (Timeout tag), tr @ polls ticket maxAttempts)"
proof -
  have "WaitForReply env ticket tag tr =
      wait_loop env ticket tag (1 + maxAttempts) (tr @ polls ticket maxAttempts)"
    unfolding WaitForReply_def using assms by (intro wait_loop_rounds) simp_all
  also have "\<dots> = (Inl (Timeout tag), tr @ polls ticket maxAttempts)"
    by (rule wait_loop_exhausted) simp
  finally show ?thesis .
qed

text \<open>
  Claim C3.  When every read succeeds and no comment ever contains the tag,
  \<^const>\<open>WaitForReply\<close> fails with the time-out error.  Its trace is \<^const>\<open>maxAttempts\<close>
  rounds, each a read of the comments followed by a sleep of \<^const>\<open>pollInterval\<close>, so
  that it has performed exactly \<^const>\<open>maxAttempts\<close> reads and a sleep of the poll
  interval lies between each read and the next.
\<close>

theorem WaitForReply_timeout:
  assumes "\<forall>j<maxAttempts. \<exists>cs. GetComments env (tr @ polls ticket j) ticket = Inr cs \<and>
           (\<forall>c \<in> set cs. \<not> Contains c tag)"
  shows "WaitForReply env ticket tag tr =
           (Inl (Timeout tag),
            tr @ concat (replicate maxAttempts
                   [Call_GetComments (ID ticket), Call_Sleep pollInterval])) \<and>
         length (filter (\<lambda>e. e = Call_GetComments (ID ticket))
           (concat (replicate maxAttempts
              [Call_GetComments (ID ticket), Call_Sleep pollInterval]))) = maxAttempts"
  using WaitForReply_quiet [OF assms] by (simp add: polls_def count_reads)

theorem WaitForReply_timeout_witness:
  "fst (WaitForReply quiet_env ticket1 ''@bot'' []) = Inl (Timeout ''@bot'') \<and>
   length (snd (WaitForReply quiet_env ticket1 ''@bot'' [])) = 200 \<and>
   length (filter (\<lambda>e. e = Call_GetComments ''T1'')
     (snd (WaitForReply quiet_env ticket1 ''@bot'' []))) = 100"
proof -
  have 1: "\<forall>j<maxAttempts. \<exists>cs. GetComments quiet_env ([] @ polls ticket1 j) ticket1 = Inr cs \<and>
           (\<forall>c \<in> set cs. \<not> Contains c ''@bot'')"
    by (simp add: quiet_env_def)
  have "length (concat (replicate n [a, b])) = 2 * n" for n and a b :: event
    by (induction n) simp_all
  with WaitForReply_timeout [OF 1] show ?thesis
    by (simp add: maxAttempts_def ticket1_def)
qed

text \<open>
  Claim C10.  When a read of the comments fails, after \<open>k\<close> reads that succeeded without
  a match, \<^const>\<open>WaitForReply\<close> returns that error, wrapped, at once: the trace ends
  with the failed read, with no sleep and no further attempt after it, and the error is
  not the time-out.  The time-out is returned only if all \<^const>\<open>maxAttempts\<close> reads
  succeed and none of their comments contains the tag.
\<close>

theorem WaitForReply_read_error:
  "(k < maxAttempts \<and>
    (\<forall>j<k. \<exists>cs. GetComments env (tr @ polls ticket j) ticket = Inr cs \<and>
           (\<forall>c \<in> set cs. \<not> Contains c tag)) \<and>
    GetComments env (tr @ polls ticket k) ticket = Inl err \<longrightarrow>
      WaitForReply env ticket tag tr =
        (Inl (Wrapped ''failed to read comments'' err),
         tr @ polls ticket k @ [Call_GetComments (ID ticket)])) \<and>
   (fst (WaitForReply env ticket tag tr) = Inl (Timeout t) \<longrightarrow>
      (\<forall>j<maxAttempts. \<exists>cs. GetComments env (tr @ polls ticket j) ticket = Inr cs \<and>
           (\<forall>c \<in> set cs. \<not> Contains c tag)))"
proof (intro conjI impI)
  assume a: "k < maxAttempts \<and>
    (\<forall>j<k. \<exists>cs. GetComments env (tr @ polls ticket j) ticket = Inr cs \<and>
           (\<forall>c \<in> set cs. \<not> Contains c tag)) \<and>
    GetComments env (tr @ polls ticket k) ticket = Inl err"
  then have "1 + k \<le> Suc maxAttempts" "1 + k \<le> maxAttempts"
    by simp_all
  with a have "WaitForReply env ticket tag tr =
      wait_loop env ticket tag (1 + k) (tr @ polls ticket k)"
    unfolding WaitForReply_def by (intro wait_loop_rounds) simp_all
  also have "\<dots> = (Inl (Wrapped ''failed to read comments'' err),
      (tr @ polls ticket k) @ [Call_GetComments (ID ticket)])"
    using \<open>1 + k \<le> maxAttempts\<close> a by (intro wait_loop_read_error) simp_all
  finally show "WaitForReply env ticket tag tr =
        (Inl (Wrapped ''failed to read comments'' err),
         tr @ polls ticket k @ [Call_GetComments (ID ticket)])"
    by simp
next
  let ?quiet = "\<lambda>j. \<exists>cs. GetComments env (tr @ polls ticket j) ticket = Inr cs \<and>
           (\<forall>c \<in> set cs. \<not> Contains c tag)"
  assume timeout: "fst (WaitForReply env ticket tag tr) = Inl (Timeout t)"
  show "\<forall>j<maxAttempts. ?quiet j"
  proof (rule ccontr)
    assume "\<not> (\<forall>j<maxAttempts. ?quiet j)"
    then obtain j where j: "j < maxAttempts" "\<not> ?quiet j"
      by blast
    define k where "k = (LEAST i. \<not> ?quiet i)"
    from j(2) have "\<not> ?quiet k"
      unfolding k_def by (rule LeastI)
    moreover from j(2) have "k \<le> j"
      unfolding k_def by (rule Least_le)
    moreover have "\<forall>i<k. ?quiet i"
      unfolding k_def using not_less_Least by blast
    ultimately have k: "k < maxAttempts" "\<not> ?quiet k" "\<forall>j<k. ?quiet j"
      using j(1) by simp_all
    then have le: "1 + k \<le> Suc maxAttempts" "1 + k \<le> maxAttempts"
      by simp_all
    from k(3) le(1) have steps: "WaitForReply env ticket tag tr =
        wait_loop env ticket tag (1 + k) (tr @ polls ticket k)"
      unfolding WaitForReply_def by (intro wait_loop_rounds) simp_all
    show False
    proof (cases "GetComments env (tr @ polls ticket k) ticket")
      case (Inl err)
      with le(2) steps timeout show False
        by (simp add: wait_loop_read_error)
    next
      case (Inr cs)
      with k(2) obtain c where "c \<in> set cs" "Contains c tag"
        by auto
      then obtain reply where "find (\<lambda>c. Contains c tag) cs = Some reply"
        by (cases "find (\<lambda>c. Contains c tag) cs") (auto simp: find_None_iff)
      with Inr le(2) have "wait_loop env ticket tag (1 + k) (tr @ polls ticket k) =
          (Inr reply, (tr @ polls ticket k) @ [Call_GetComments (ID ticket)])"
        by (subst wait_loop.simps) (simp add: ReadComments_def)
      with steps timeout show False by simp
    qed
  qed
qed

theorem WaitForReply_read_error_witness:
  "WaitForReply failing_env ticket1 ''@bot'' [] =
     (Inl (Wrapped ''failed to read comments'' (External ''board unavailable'')),
      [Call_GetComments ''T1'', Call_Sleep 60, Call_GetComments ''T1'']) \<and>
   fst (WaitForReply quiet_env ticket1 ''@bot'' []) = Inl (Timeout ''@bot'') \<and>
   GetComments quiet_env (polls ticket1 99) ticket1 = Inr []"
proof -
  have c1: "\<not> Contains ''What is the goal?\<newline>@bogoego'' ''@bot''" by code_simp
  have p: "polls ticket1 1 = [Call_GetComments ''T1'', Call_Sleep 60]"
    by (simp add: polls_def ticket1_def pollInterval_def)
  have 1: "1 < maxAttempts \<and>
    (\<forall>j<1. \<exists>cs. GetComments failing_env ([] @ polls ticket1 j) ticket1 = Inr cs \<and>
           (\<forall>c \<in> set cs. \<not> Contains c ''@bot'')) \<and>
    GetComments failing_env ([] @ polls ticket1 1) ticket1 = Inl (External ''board unavailable'')"
    using c1 by (simp add: maxAttempts_def failing_env_def quiet_env_def polls_def)
  have q: "\<forall>j<maxAttempts. \<exists>cs. GetComments quiet_env ([] @ polls ticket1 j) ticket1 = Inr cs \<and>
           (\<forall>c \<in> set cs. \<not> Contains c ''@bot'')"
    by (simp add: quiet_env_def)
  have 2: "fst (WaitForReply quiet_env ticket1 ''@bot'' []) = Inl (Timeout ''@bot'')"
    using WaitForReply_quiet [OF q] by simp
  from WaitForReply_read_error [of 1 failing_env "[]" ticket1 "''@bot''"
      "External ''board unavailable''" "''@bot''"] 1 p
  have a: "WaitForReply failing_env ticket1 ''@bot'' [] =
     (Inl (Wrapped ''failed to read comments'' (External ''board unavailable'')),
      [Call_GetComments ''T1'', Call_Sleep 60, Call_GetComments ''T1''])"
    by (simp add: ticket1_def)
  from WaitForReply_read_error [of 1 quiet_env "[]" ticket1 "''@bot''"
      "External ''board unavailable''" "''@bot''"] 2
  have "\<forall>j<maxAttempts. \<exists>cs. GetComments quiet_env ([] @ polls ticket1 j) ticket1 = Inr cs \<and>
           (\<forall>c \<in> set cs. \<not> Contains c ''@bot'')"
    by blast
  then have b: "GetComments quiet_env (polls ticket1 99) ticket1 = Inr []"
    by (simp add: quiet_env_def)
  from a 2 b show ?thesis by simp
qed

section \<open>The claim about the guidance tickets\<close>

lemma guidance_loop_eq:
  "guidance_loop cards listID text =
     text @ concat (map (\<lambda>c. ''Title: '' @ Name c @ ''\<newline>'' @ ''Details: '' @ Desc c @ ''\<newline>\<newline>'')
       (filter (\<lambda>c. IDList c = listID) cards))"
  by (induction cards arbitrary: "text") simp_all

lemma guidance_loop_unchanged:
  "guidance_loop cards listID text = text \<longleftrightarrow> (\<forall>c \<in> set cards. IDList c \<noteq> listID)"
proof -
  have "concat (map (\<lambda>c. ''Title: '' @ Name c @ ''\<newline>'' @ ''Details: '' @ Desc c @ ''\<newline>\<newline>'')
       (filter (\<lambda>c. IDList c = listID) cards)) = [] \<longleftrightarrow> filter (\<lambda>c. IDList c = listID) cards = []"
    by (cases "filter (\<lambda>c. IDList c = listID) cards") simp_all
  then show ?thesis
    by (simp add: guidance_loop_eq filter_empty_conv)
qed

text \<open>
  Claim C9.  When the board is read and no card is in the list \<^verbatim>\<open>IMPORTANT\<close>,
  \<^const>\<open>LoadGuidanceTickets\<close> returns success and its trace holds the three reads of the
  board and no call of the language model.  Whenever it does call the model, with
  a chat or with messages, the board has been read and a card is in that list.
\<close>

theorem LoadGuidanceTickets_empty_column:
  "(GetListIDByName env tr ''IMPORTANT'' = Inr listID \<and>
    GetBoard env (tr @ [Call_GetListIDByName ''IMPORTANT'']) = Inr board \<and>
    GetCards env (tr @ [Call_GetListIDByName ''IMPORTANT'', Call_GetBoard]) board = Inr cards \<and>
    (\<forall>c \<in> set cards. IDList c \<noteq> listID) \<longrightarrow>
      LoadGuidanceTickets env tr =
        (None, tr @ [Call_GetListIDByName ''IMPORTANT'', Call_GetBoard, Call_GetCards])) \<and>
   ((Call_ChatWithMessages messages \<in> set (snd (LoadGuidanceTickets env tr)) \<or>
     Call_Chat prompt \<in> set (snd (LoadGuidanceTickets env tr))) \<and>
    Call_ChatWithMessages messages \<notin> set tr \<and> Call_Chat prompt \<notin> set tr \<longrightarrow>
      (\<exists>listID board cards.
         GetListIDByName env tr ''IMPORTANT'' = Inr listID \<and>
         GetBoard env (tr @ [Call_GetListIDByName ''IMPORTANT'']) = Inr board \<and>
         GetCards env (tr @ [Call_GetListIDByName ''IMPORTANT'', Call_GetBoard]) board = Inr cards \<and>
         (\<exists>c \<in> set cards. IDList c = listID)))"
proof (intro conjI impI)
  assume "GetListIDByName env tr ''IMPORTANT'' = Inr listID \<and>
    GetBoard env (tr @ [Call_GetListIDByName ''IMPORTANT'']) = Inr board \<and>
    GetCards env (tr @ [Call_GetListIDByName ''IMPORTANT'', Call_GetBoard]) board = Inr cards \<and>
    (\<forall>c \<in> set cards. IDList c \<noteq> listID)"
  then show "LoadGuidanceTickets env tr =
        (None, tr @ [Call_GetListIDByName ''IMPORTANT'', Call_GetBoard, Call_GetCards])"
    by (simp add: LoadGuidanceTickets_def guidance_loop_unchanged [THEN iffD2])
next
  assume a: "(Call_ChatWithMessages messages \<in> set (snd (LoadGuidanceTickets env tr)) \<or>
     Call_Chat prompt \<in> set (snd (LoadGuidanceTickets env tr))) \<and>
    Call_ChatWithMessages messages \<notin> set tr \<and> Call_Chat prompt \<notin> set tr"
  show "\<exists>listID board cards.
         GetListIDByName env tr ''IMPORTANT'' = Inr listID \<and>
         GetBoard env (tr @ [Call_GetListIDByName ''IMPORTANT'']) = Inr board \<and>
         GetCards env (tr @ [Call_GetListIDByName ''IMPORTANT'', Call_GetBoard]) board = Inr cards \<and>
         (\<exists>c \<in> set cards. IDList c = listID)"
  proof (cases "GetListIDByName env tr ''IMPORTANT''")
    case Inl
    with a show ?thesis by (auto simp: LoadGuidanceTickets_def)
  next
    case listID: (Inr listID)
    show ?thesis
    proof (cases "GetBoard env (tr @ [Call_GetListIDByName ''IMPORTANT''])")
      case Inl
      with a listID show ?thesis by (auto simp: LoadGuidanceTickets_def)
    next
      case board: (Inr board)
      show ?thesis
      proof (cases "GetCards env (tr @ [Call_GetListIDByName ''IMPORTANT'', Call_GetBoard]) board")
        case Inl
        with a listID board show ?thesis by (auto simp: LoadGuidanceTickets_def)
      next
        case cards: (Inr cards)
        have "\<exists>c \<in> set cards. IDList c = listID"
        proof (rule ccontr)
          assume "\<not> (\<exists>c \<in> set cards. IDList c = listID)"
          then have "guidance_loop cards listID ''Guidance Tickets:\<newline>'' = ''Guidance Tickets:\<newline>''"
            by (simp add: guidance_loop_unchanged)
          with a listID board cards show False
            by (auto simp: LoadGuidanceTickets_def)
        qed
        with listID board cards show ?thesis by simp
      qed
    qed
  qed
qed

theorem LoadGuidanceTickets_empty_column_witness:
  "LoadGuidanceTickets quiet_env [] =
     (None, [Call_GetListIDByName ''IMPORTANT'', Call_GetBoard, Call_GetCards]) \<and>
   snd (LoadGuidanceTickets guidance_env []) =
     [Call_GetListIDByName ''IMPORTANT'', Call_GetBoard, Call_GetCards,
      Call_ChatWithMessages [\<lparr>Role = ''system'',
        Content = ''Guidance Tickets:\<newline>Title: Style\<newline>Details: Use gofmt\<newline>\<newline>''\<rparr>]] \<and>
   GetCards guidance_env [Call_GetListIDByName ''IMPORTANT'', Call_GetBoard] ''board'' \<noteq> Inr []"
proof -
  let ?m = "[\<lparr>Role = ''system'',
        Content = ''Guidance Tickets:\<newline>Title: Style\<newline>Details: Use gofmt\<newline>\<newline>''\<rparr>]"
  have 1: "GetListIDByName quiet_env [] ''IMPORTANT'' = Inr ''IMPORTANT'' \<and>
    GetBoard quiet_env ([] @ [Call_GetListIDByName ''IMPORTANT'']) = Inr ''board'' \<and>
    GetCards quiet_env ([] @ [Call_GetListIDByName ''IMPORTANT'', Call_GetBoard]) ''board'' = Inr [] \<and>
    (\<forall>c \<in> set []. IDList c \<noteq> ''IMPORTANT'')"
    by (simp add: quiet_env_def)
  from LoadGuidanceTickets_empty_column [of quiet_env "[]" "''IMPORTANT''" "''board''" "[]"] 1
  have a: "LoadGuidanceTickets quiet_env [] =
     (None, [Call_GetListIDByName ''IMPORTANT'', Call_GetBoard, Call_GetCards])"
    by simp
  have b: "snd (LoadGuidanceTickets guidance_env []) =
     [Call_GetListIDByName ''IMPORTANT'', Call_GetBoard, Call_GetCards, Call_ChatWithMessages ?m]"
    by (simp add: LoadGuidanceTickets_def guidance_env_def quiet_env_def guide1_def)
  then have 2: "(Call_ChatWithMessages ?m \<in> set (snd (LoadGuidanceTickets guidance_env [])) \<or>
     Call_Chat [] \<in> set (snd (LoadGuidanceTickets guidance_env []))) \<and>
    Call_ChatWithMessages ?m \<notin> set [] \<and> Call_Chat [] \<notin> set []"
    by simp
  from LoadGuidanceTickets_empty_column [of guidance_env "[]" _ _ _ ?m "[]"] 2
  have "\<exists>listID board cards.
         GetListIDByName guidance_env [] ''IMPORTANT'' = Inr listID \<and>
         GetBoard guidance_env ([] @ [Call_GetListIDByName ''IMPORTANT'']) = Inr board \<and>
         GetCards guidance_env ([] @ [Call_GetListIDByName ''IMPORTANT'', Call_GetBoard]) board = Inr cards \<and>
         (\<exists>c \<in> set cards. IDList c = listID)"
    by blast
  then have c: "GetCards guidance_env [Call_GetListIDByName ''IMPORTANT'', Call_GetBoard] ''board'' \<noteq> Inr []"
    by (auto simp: guidance_env_def quiet_env_def)
  from a b c show ?thesis by simp
qed

section \<open>The claims about the assigned tickets\<close>

lemma belongs_loop_stable:
  assumes "\<forall>tr' memberID. GetMember env tr' memberID = resolve memberID"
  shows "fst (belongs_loop lib env a ids tr) =
     list_ex (\<lambda>memberID.
        case resolve memberID of
          Inl err \<Rightarrow> False
        | Inr member \<Rightarrow> EqualFold lib (Username member) (AgentName a)) ids"
  using assms by (induction ids arbitrary: tr) (simp_all split: sum.splits)

lemma TicketBelongsToMe_stable:
  assumes "\<forall>tr' memberID. GetMember env tr' memberID = resolve memberID"
  shows "fst (TicketBelongsToMe lib env a ticket tr) = assigned_to lib resolve a ticket"
  using belongs_loop_stable [OF assms] by (simp add: TicketBelongsToMe_def assigned_to_def)

lemma RefreshProjectContext_ok:
  assumes "\<forall>tr'. \<exists>files. ReadAllFiles env tr' = Inr files"
    and "\<forall>tr' prompt. \<exists>answer. Chat env tr' prompt = Inr answer"
  shows "fst (RefreshProjectContext lib env tr) = None"
proof -
  from assms(1) obtain files where "ReadAllFiles env tr = Inr files"
    by blast
  moreover from assms(2) obtain answer where
    "Chat env (tr @ [Call_ReadAllFiles]) (context_prompt lib files) = Inr answer"
    by blast
  ultimately show ?thesis
    by (simp add: RefreshProjectContext_def ReadAllGitFiles_def)
qed

lemma assigned_loop_ok:
  assumes "\<forall>tr' memberID. GetMember env tr' memberID = resolve memberID"
    and "\<forall>tr'. \<exists>files. ReadAllFiles env tr' = Inr files"
    and "\<forall>tr' prompt. \<exists>answer. Chat env tr' prompt = Inr answer"
  shows "fst (assigned_loop lib env a cards assigned need tr) =
           Inr (assigned @ filter (assigned_to lib resolve a) cards)"
proof (induction cards arbitrary: assigned need tr)
  case Nil
  then show ?case by simp
next
  case (Cons ticket rest)
  obtain b tr1 where b: "TicketBelongsToMe lib env a ticket tr = (b, tr1)"
    by (cases "TicketBelongsToMe lib env a ticket tr")
  with TicketBelongsToMe_stable [OF assms(1), of lib a ticket tr]
  have eq: "b = assigned_to lib resolve a ticket" by simp
  obtain r tr2 where r: "RefreshProjectContext lib env tr1 = (r, tr2)"
    by (cases "RefreshProjectContext lib env tr1")
  with RefreshProjectContext_ok [OF assms(2,3), of lib tr1] have "r = None" by simp
  with b r eq Cons.IH show ?case by simp
qed

text \<open>
  Claim C6.  For a board whose cards are read and whose member ids resolve the same way
  during the scan, and with the refresh of the context succeeding,
  \<^const>\<open>GetAssignedTickets\<close> returns exactly the cards of the board that are assigned to
  the agent, in the order of the board: those with a member id that resolves to a name
  equal to the agent's name up to the case of letters.
\<close>

theorem GetAssignedTickets_subset:
  assumes "GetBoard env tr = Inr board"
    and "GetCards env (tr @ [Call_GetBoard]) board = Inr cards"
    and "\<forall>tr' memberID. GetMember env tr' memberID = resolve memberID"
    and "\<forall>tr'. \<exists>files. ReadAllFiles env tr' = Inr files"
    and "\<forall>tr' prompt. \<exists>answer. Chat env tr' prompt = Inr answer"
  shows "fst (GetAssignedTickets lib env a tr) = Inr (filter (assigned_to lib resolve a) cards)"
  using assms(1,2) assigned_loop_ok [OF assms(3-5)]
  by (simp add: GetAssignedTickets_def)

theorem GetAssignedTickets_subset_witness:
  "fst (GetAssignedTickets ascii_library board_env manager []) = Inr [ticket1, ticket3]"
proof -
  have 1: "GetBoard board_env [] = Inr ''board''"
    by (simp add: board_env_def quiet_env_def)
  have 2: "GetCards board_env ([] @ [Call_GetBoard]) ''board'' = Inr [ticket1, ticket2, ticket3]"
    by (simp add: board_env_def quiet_env_def)
  have 3: "\<forall>tr' memberID. GetMember board_env tr' memberID = members memberID"
    by (simp add: board_env_def quiet_env_def)
  have 4: "\<forall>tr'. \<exists>files. ReadAllFiles board_env tr' = Inr files"
    by (simp add: board_env_def quiet_env_def)
  have 5: "\<forall>tr' prompt. \<exists>answer. Chat board_env tr' prompt = Inr answer"
    by (simp add: board_env_def quiet_env_def)
  have 6: "filter (assigned_to ascii_library members manager) [ticket1, ticket2, ticket3] =
      [ticket1, ticket3]"
    by code_simp
  from GetAssignedTickets_subset [OF 1 2 3 4 5, of ascii_library manager] 6 show ?thesis
    by simp
qed

lemma Refresh_read_fails:
  "ReadAllFiles env tr = Inl err \<Longrightarrow>
     RefreshProjectContext lib env tr =
       (Some (Wrapped ''failed to read git files'' err), tr @ [Call_ReadAllFiles])"
  by (simp add: RefreshProjectContext_def ReadAllGitFiles_def)

lemma Refresh_chat_fails:
  assumes "ReadAllFiles env tr = Inr files"
    and "\<forall>prompt. Chat env (tr @ [Call_ReadAllFiles]) prompt = Inl err"
  shows "fst (RefreshProjectContext lib env tr) =
           Some (Wrapped ''failed to update GPT context'' err)"
  using assms by (simp add: RefreshProjectContext_def ReadAllGitFiles_def Let_def)

lemma assigned_loop_refresh_fails:
  assumes "\<forall>tr' memberID. GetMember env tr' memberID = resolve memberID"
    and "\<forall>tr'. fst (RefreshProjectContext lib env tr') = Some err"
    and "\<exists>c \<in> set cards. assigned_to lib resolve a c"
  shows "fst (assigned_loop lib env a cards assigned True tr) =
           Inl (Wrapped ''failed to refresh context'' err)"
  using assms(3)
proof (induction cards arbitrary: tr)
  case Nil
  then show ?case by simp
next
  case (Cons ticket rest)
  obtain b tr1 where b: "TicketBelongsToMe lib env a ticket tr = (b, tr1)"
    by (cases "TicketBelongsToMe lib env a ticket tr")
  with TicketBelongsToMe_stable [OF assms(1), of lib a ticket tr]
  have eq: "b = assigned_to lib resolve a ticket" by simp
  obtain r tr2 where r: "RefreshProjectContext lib env tr1 = (r, tr2)"
    by (cases "RefreshProjectContext lib env tr1")
  with assms(2) [rule_format, of tr1] have "r = Some err" by simp
  show ?case
  proof (cases b)
    case True
    with b r \<open>r = Some err\<close> show ?thesis by simp
  next
    case False
    with eq Cons.prems have "\<exists>c \<in> set rest. assigned_to lib resolve a c" by simp
    with False b Cons.IH show ?thesis by simp
  qed
qed

lemma Refresh_error_wrapped:
  "fst (RefreshProjectContext lib env tr) = Some e \<Longrightarrow>
     (\<exists>err. e = Wrapped ''failed to read git files'' err) \<or>
     (\<exists>err. e = Wrapped ''failed to update GPT context'' err)"
  by (auto simp: RefreshProjectContext_def ReadAllGitFiles_def Let_def split: sum.splits)

lemma assigned_loop_error_wrapped:
  "fst (assigned_loop lib env a cards assigned need tr) = Inl e \<Longrightarrow>
     \<exists>err. e = Wrapped ''failed to refresh context'' err"
proof (induction cards arbitrary: assigned need tr)
  case Nil
  then show ?case by simp
next
  case (Cons ticket rest)
  obtain b tr1 where b: "TicketBelongsToMe lib env a ticket tr = (b, tr1)"
    by (cases "TicketBelongsToMe lib env a ticket tr")
  obtain r tr2 where r: "RefreshProjectContext lib env tr1 = (r, tr2)"
    by (cases "RefreshProjectContext lib env tr1")
  from Cons.prems b r Cons.IH show ?case
    by (cases b; cases need; cases r) auto
qed

lemma belongs_loop_all_fail:
  "\<forall>tr' memberID. \<exists>err. GetMember env tr' memberID = Inl err \<Longrightarrow>
     fst (belongs_loop lib env a ids tr) = False"
proof (induction ids arbitrary: tr)
  case Nil
  then show ?case by simp
next
  case (Cons memberID rest)
  from Cons.prems obtain err where "GetMember env tr memberID = Inl err" by blast
  with Cons show ?case by simp
qed

lemma assigned_loop_all_fail:
  assumes "\<forall>tr' memberID. \<exists>err. GetMember env tr' memberID = Inl err"
  shows "fst (assigned_loop lib env a cards assigned need tr) = Inr assigned"
proof (induction cards arbitrary: tr)
  case Nil
  then show ?case by simp
next
  case (Cons ticket rest)
  obtain b tr1 where b: "TicketBelongsToMe lib env a ticket tr = (b, tr1)"
    by (cases "TicketBelongsToMe lib env a ticket tr")
  with belongs_loop_all_fail [OF assms, of lib a "IDMembers ticket" tr] have "\<not> b"
    by (simp add: TicketBelongsToMe_def)
  with b Cons.IH show ?case by simp
qed

text \<open>
  Claim C5, as amended.  Inside \<^const>\<open>GetAssignedTickets\<close> an error of reading the board,
  of reading its cards or of refreshing the context (reading the files of the
  repository, calling the model) is wrapped with the name of the failed operation and
  returned to the caller, and every error it returns is wrapped in this way.  A member
  id that cannot be resolved is skipped: the scan goes on with the next member id, and
  when no member id can be resolved it succeeds with no ticket.
\<close>

theorem GetAssignedTickets_errors:
  "(GetBoard env tr = Inl err \<longrightarrow>
      GetAssignedTickets lib env a tr =
        (Inl (Wrapped ''failed to get board'' err), tr @ [Call_GetBoard])) \<and>
   (GetBoard env tr = Inr board \<and> GetCards env (tr @ [Call_GetBoard]) board = Inl err \<longrightarrow>
      GetAssignedTickets lib env a tr =
        (Inl (Wrapped ''failed to get cards'' err), tr @ [Call_GetBoard, Call_GetCards])) \<and>
   (GetBoard env tr = Inr board \<and> GetCards env (tr @ [Call_GetBoard]) board = Inr cards \<and>
    (\<forall>tr' memberID. GetMember env tr' memberID = resolve memberID) \<and>
    (\<exists>c \<in> set cards. assigned_to lib resolve a c) \<and>
    (\<forall>tr'. fst (RefreshProjectContext lib env tr') = Some err) \<longrightarrow>
      fst (GetAssignedTickets lib env a tr) = Inl (Wrapped ''failed to refresh context'' err)) \<and>
   (ReadAllFiles env tr = Inl err \<longrightarrow>
      fst (RefreshProjectContext lib env tr) = Some (Wrapped ''failed to read git files'' err)) \<and>
   (ReadAllFiles env tr = Inr files \<and>
    (\<forall>prompt. Chat env (tr @ [Call_ReadAllFiles]) prompt = Inl err) \<longrightarrow>
      fst (RefreshProjectContext lib env tr) = Some (Wrapped ''failed to update GPT context'' err)) \<and>
   (fst (GetAssignedTickets lib env a tr) = Inl e \<longrightarrow>
      (\<exists>err. e = Wrapped ''failed to get board'' err \<or> e = Wrapped ''failed to get cards'' err \<or>
             e = Wrapped ''failed to refresh context'' err)) \<and>
   (GetMember env tr memberID = Inl err \<longrightarrow>
      belongs_loop lib env a (memberID # rest) tr =
        belongs_loop lib env a rest (tr @ [Call_GetMember memberID])) \<and>
   (GetBoard env tr = Inr board \<and> GetCards env (tr @ [Call_GetBoard]) board = Inr cards \<and>
    (\<forall>tr' memberID. \<exists>err. GetMember env tr' memberID = Inl err) \<longrightarrow>
      fst (GetAssignedTickets lib env a tr) = Inr [])"
proof (intro conjI impI)
  assume e: "fst (GetAssignedTickets lib env a tr) = Inl e"
  show "\<exists>err. e = Wrapped ''failed to get board'' err \<or> e = Wrapped ''failed to get cards'' err \<or>
             e = Wrapped ''failed to refresh context'' err"
  proof (cases "GetBoard env tr")
    case Inl
    with e show ?thesis by (auto simp: GetAssignedTickets_def)
  next
    case board: (Inr board')
    show ?thesis
    proof (cases "GetCards env (tr @ [Call_GetBoard]) board'")
      case Inl
      with e board show ?thesis by (auto simp: GetAssignedTickets_def)
    next
      case (Inr cards')
      with e board
      have "fst (assigned_loop lib env a cards' [] True (tr @ [Call_GetBoard, Call_GetCards])) = Inl e"
        by (simp add: GetAssignedTickets_def)
      then obtain err' where "e = Wrapped ''failed to refresh context'' err'"
        by (blast dest: assigned_loop_error_wrapped)
      then show ?thesis by blast
    qed
  qed
next
  assume "GetBoard env tr = Inr board \<and> GetCards env (tr @ [Call_GetBoard]) board = Inr cards \<and>
    (\<forall>tr' memberID. GetMember env tr' memberID = resolve memberID) \<and>
    (\<exists>c \<in> set cards. assigned_to lib resolve a c) \<and>
    (\<forall>tr'. fst (RefreshProjectContext lib env tr') = Some err)"
  then have "GetBoard env tr = Inr board" "GetCards env (tr @ [Call_GetBoard]) board = Inr cards"
    and m: "\<forall>tr' memberID. GetMember env tr' memberID = resolve memberID"
    and c: "\<exists>c \<in> set cards. assigned_to lib resolve a c"
    and r: "\<forall>tr'. fst (RefreshProjectContext lib env tr') = Some err"
    by simp_all
  then show "fst (GetAssignedTickets lib env a tr) = Inl (Wrapped ''failed to refresh context'' err)"
    using assigned_loop_refresh_fails [OF m r c] by (simp add: GetAssignedTickets_def)
next
  assume "GetBoard env tr = Inr board \<and> GetCards env (tr @ [Call_GetBoard]) board = Inr cards \<and>
    (\<forall>tr' memberID. \<exists>err. GetMember env tr' memberID = Inl err)"
  then have "GetBoard env tr = Inr board" "GetCards env (tr @ [Call_GetBoard]) board = Inr cards"
    and m: "\<forall>tr' memberID. \<exists>err. GetMember env tr' memberID = Inl err"
    by simp_all
  then show "fst (GetAssignedTickets lib env a tr) = Inr []"
    using assigned_loop_all_fail [OF m] by (simp add: GetAssignedTickets_def)
qed (simp_all add: GetAssignedTickets_def Refresh_read_fails Refresh_chat_fails)

theorem GetAssignedTickets_errors_witness:
  "GetAssignedTickets ascii_library board_down_env manager [] =
     (Inl (Wrapped ''failed to get board'' (External ''board unavailable'')), [Call_GetBoard]) \<and>
   GetAssignedTickets ascii_library cards_down_env manager [] =
     (Inl (Wrapped ''failed to get cards'' (External ''cards unavailable'')),
      [Call_GetBoard, Call_GetCards]) \<and>
   fst (GetAssignedTickets ascii_library repo_down_env manager []) =
     Inl (Wrapped ''failed to refresh context''
       (Wrapped ''failed to read git files'' (External ''no repository''))) \<and>
   fst (RefreshProjectContext ascii_library model_down_env []) =
     Some (Wrapped ''failed to update GPT context'' (External ''model unavailable'')) \<and>
   belongs_loop ascii_library members_down_env manager [''m1''] [] = (False, [Call_GetMember ''m1'']) \<and>
   fst (GetAssignedTickets ascii_library members_down_env manager []) = Inr []"
proof -
  let ?lib = ascii_library
  have 1: "GetBoard board_down_env [] = Inl (External ''board unavailable'')"
    by (simp add: board_down_env_def quiet_env_def)
  from GetAssignedTickets_errors [where env = board_down_env and tr = "[]" and lib = ?lib
      and a = manager and err = "External ''board unavailable''"] 1
  have a: "GetAssignedTickets ?lib board_down_env manager [] =
     (Inl (Wrapped ''failed to get board'' (External ''board unavailable'')), [Call_GetBoard])"
    by simp
  have 2: "GetBoard cards_down_env [] = Inr ''board'' \<and>
      GetCards cards_down_env ([] @ [Call_GetBoard]) ''board'' = Inl (External ''cards unavailable'')"
    by (simp add: cards_down_env_def quiet_env_def)
  from GetAssignedTickets_errors [where env = cards_down_env and tr = "[]" and lib = ?lib
      and a = manager and err = "External ''cards unavailable''" and board = "''board''"] 2
  have b: "GetAssignedTickets ?lib cards_down_env manager [] =
     (Inl (Wrapped ''failed to get cards'' (External ''cards unavailable'')),
      [Call_GetBoard, Call_GetCards])"
    by simp
  have 3: "ReadAllFiles repo_down_env tr' = Inl (External ''no repository'')" for tr'
    by (simp add: repo_down_env_def board_env_def quiet_env_def)
  have r: "fst (RefreshProjectContext ?lib repo_down_env tr') =
      Some (Wrapped ''failed to read git files'' (External ''no repository''))" for tr'
    using GetAssignedTickets_errors [where env = repo_down_env and tr = tr' and lib = ?lib
      and err = "External ''no repository''"] 3 [of tr']
    by simp
  have 4: "\<exists>c \<in> set [ticket1, ticket2, ticket3]. assigned_to ?lib members manager c"
    by code_simp
  have 5: "GetBoard repo_down_env [] = Inr ''board'' \<and>
      GetCards repo_down_env ([] @ [Call_GetBoard]) ''board'' = Inr [ticket1, ticket2, ticket3] \<and>
      (\<forall>tr' memberID. GetMember repo_down_env tr' memberID = members memberID)"
    by (simp add: repo_down_env_def board_env_def quiet_env_def)
  from GetAssignedTickets_errors [where env = repo_down_env and tr = "[]" and lib = ?lib
      and a = manager and board = "''board''" and cards = "[ticket1, ticket2, ticket3]"
      and resolve = members
      and err = "Wrapped ''failed to read git files'' (External ''no repository'')"] 4 5 r
  have c: "fst (GetAssignedTickets ?lib repo_down_env manager []) =
     Inl (Wrapped ''failed to refresh context''
       (Wrapped ''failed to read git files'' (External ''no repository'')))"
    by blast
  have 6: "ReadAllFiles model_down_env [] = Inr [] \<and>
      (\<forall>prompt. Chat model_down_env ([] @ [Call_ReadAllFiles]) prompt =
         Inl (External ''model unavailable''))"
    by (simp add: model_down_env_def board_env_def quiet_env_def)
  from GetAssignedTickets_errors [where env = model_down_env and tr = "[]" and lib = ?lib
      and files = "[]" and err = "External ''model unavailable''"] 6
  have d: "fst (RefreshProjectContext ?lib model_down_env []) =
     Some (Wrapped ''failed to update GPT context'' (External ''model unavailable''))"
    by blast
  have 7: "GetMember members_down_env [] ''m1'' = Inl (External ''member unavailable'')"
    by (simp add: members_down_env_def quiet_env_def)
  from GetAssignedTickets_errors [where env = members_down_env and tr = "[]" and lib = ?lib
      and a = manager and memberID = "''m1''" and rest = "[]"
      and err = "External ''member unavailable''"] 7
  have e: "belongs_loop ?lib members_down_env manager [''m1''] [] = (False, [Call_GetMember ''m1''])"
    by simp
  have 8: "GetBoard members_down_env [] = Inr ''board'' \<and>
      GetCards members_down_env ([] @ [Call_GetBoard]) ''board'' = Inr [ticket1] \<and>
      (\<forall>tr' memberID. \<exists>err. GetMember members_down_env tr' memberID = Inl err)"
    by (simp add: members_down_env_def quiet_env_def)
  from GetAssignedTickets_errors [where env = members_down_env and tr = "[]" and lib = ?lib
      and a = manager and board = "''board''" and cards = "[ticket1]"] 8
  have f: "fst (GetAssignedTickets ?lib members_down_env manager []) = Inr []"
    by blast
  from a b c d e f show ?thesis by simp
qed

text \<open>
  Claim C5 as stated fails: when the member of the only ticket of the board cannot be
  resolved, the error is not returned, and the scan succeeds with no ticket.
\<close>

theorem GetAssignedTickets_member_error_swallowed:
  "GetMember members_down_env [Call_GetBoard, Call_GetCards] ''m1'' =
     Inl (External ''member unavailable'') \<and>
   GetAssignedTickets ascii_library members_down_env manager [] =
     (Inr [], [Call_GetBoard, Call_GetCards, Call_GetMember ''m1''])"
  by (simp add: GetAssignedTickets_def TicketBelongsToMe_def members_down_env_def quiet_env_def
      ticket1_def)

section \<open>The claim about the child tickets\<close>

lemma granted_0:
  "granted env listID (t # rest) tr 0 =
     (case CreateCard env tr (Title t) (Description t) listID of
        Inl err \<Rightarrow> [] | Inr created \<Rightarrow> [created])"
  by (simp add: granted_def)

lemma granted_Suc:
  "granted env listID (t # rest) tr (Suc i) = granted env listID rest (tr @ [creation listID t]) i"
  by (simp add: granted_def)

lemma create_loop_eq:
  "create_loop env listID tasks createdTickets tr =
     (createdTickets @ concat (map (granted env listID tasks tr) [0..<length tasks]),
      tr @ map (creation listID) tasks)"
proof (induction tasks arbitrary: createdTickets tr)
  case Nil
  then show ?case by simp
next
  case (Cons t rest)
  have upt: "[0..<length (t # rest)] = 0 # map Suc [0..<length rest]"
    by (simp add: upt_conv_Cons map_Suc_upt del: upt_Suc)
  have "concat (map (granted env listID (t # rest) tr) [0..<length (t # rest)]) =
      granted env listID (t # rest) tr 0 @
      concat (map (\<lambda>i. granted env listID (t # rest) tr (Suc i)) [0..<length rest])"
    by (simp only: upt list.map concat.simps map_map o_def)
  then have "concat (map (granted env listID (t # rest) tr) [0..<length (t # rest)]) =
      granted env listID (t # rest) tr 0 @
      concat (map (granted env listID rest (tr @ [creation listID t])) [0..<length rest])"
    by (simp only: granted_Suc)
  then show ?case
    by (cases "CreateCard env tr (Title t) (Description t) listID")
      (simp_all add: Cons.IH granted_0 creation_def del: upt_Suc)
qed

text \<open>
  Claim C4.  Let \<^const>\<open>HandleTicket\<close> reach the creation of the child tickets: the
  clarification is generated and posted, the reply arrives, the model answers it, and
  the list \<^verbatim>\<open>Doing\<close> is found.  Then, whatever the board answers to the requests, the
  card of every parsed task is requested exactly once, in the order of the tasks, a
  rejected request being neither fatal nor repeated; the operation returns no error
  but the cards of the granted requests, in that order; and with no parsed task it
  returns the empty list.
\<close>

theorem HandleTicket_partial_creation:
  assumes "Chat env tr (clarification_prompt ticket) = Inr clarifications"
    and "tr1 = tr @ [Call_Chat (clarification_prompt ticket)]"
    and "PostComment env tr1 ticket (clarifications @ ''\<newline>@bogoego'') = None"
    and "tr2 = tr1 @ [Call_PostComment (ID ticket) (clarifications @ ''\<newline>@bogoego'')]"
    and "WaitForReply env ticket (''@'' @ AgentName e) tr2 = (Inr reply, tr3)"
    and "Chat env tr3 (reply @ ''\<newline>'' @ replyPrompt) = Inr response"
    and "tr4 = tr3 @ [Call_Chat (reply @ ''\<newline>'' @ replyPrompt)]"
    and "parseTasksFromResponse response = Inr tasks"
    and "GetListIDByName env tr4 ''Doing'' = Inr listID"
    and "tr5 = tr4 @ [Call_GetListIDByName ''Doing'']"
  shows "HandleTicket env e ticket tr =
           (Inr (concat (map (granted env listID tasks tr5) [0..<length tasks])),
            tr5 @ map (creation listID) tasks) \<and>
         (tasks = [] \<longrightarrow> HandleTicket env e ticket tr = (Inr [], tr5))"
proof -
  have "HandleTicket env e ticket tr =
           (Inr (concat (map (granted env listID tasks tr5) [0..<length tasks])),
            tr5 @ map (creation listID) tasks)"
    using assms by (simp add: HandleTicket_def WriteComment_def create_loop_eq)
  then show ?thesis by auto
qed

theorem HandleTicket_partial_creation_witness:
  "fst (HandleTicket handle_env manager ticket1 []) =
     Inr [\<lparr>ID = ''A'', Name = ''A'', Desc = [], IDList = ''Doing'', IDMembers = []\<rparr>,
          \<lparr>ID = ''C'', Name = ''C'', Desc = [], IDList = ''Doing'', IDMembers = []\<rparr>] \<and>
   snd (HandleTicket handle_env manager ticket1 []) =
     [Call_Chat (clarification_prompt ticket1),
      Call_PostComment ''T1'' ''Which retries?\<newline>@bogoego'',
      Call_GetComments ''T1'',
      Call_Chat (''Three retries @bot\<newline>'' @ replyPrompt),
      Call_GetListIDByName ''Doing'',
      Call_CreateCard ''A'' [] ''Doing'',
      Call_CreateCard ''B'' ''x'' ''Doing'',
      Call_CreateCard ''C'' [] ''Doing'']"
proof -
  let ?tr1 = "[] @ [Call_Chat (clarification_prompt ticket1)]"
  let ?tr2 = "?tr1 @ [Call_PostComment (ID ticket1) (''Which retries?'' @ ''\<newline>@bogoego'')]"
  let ?tr3 = "?tr2 @ [Call_GetComments (ID ticket1)]"
  let ?tr4 = "?tr3 @ [Call_Chat (''Three retries @bot'' @ ''\<newline>'' @ replyPrompt)]"
  let ?tr5 = "?tr4 @ [Call_GetListIDByName ''Doing'']"
  let ?tasks = "[\<lparr>Title = ''A'', Description = []\<rparr>, \<lparr>Title = ''B'', Description = ''x''\<rparr>,
      \<lparr>Title = ''C'', Description = []\<rparr>]"
  have 1: "Chat handle_env [] (clarification_prompt ticket1) = Inr ''Which retries?''"
    by (simp add: handle_env_def quiet_env_def)
  have 2: "PostComment handle_env ?tr1 ticket1 (''Which retries?'' @ ''\<newline>@bogoego'') = None"
    by (simp add: handle_env_def quiet_env_def)
  have c: "Contains ''Three retries @bot'' (''@'' @ AgentName manager)"
    unfolding manager_def by code_simp
  have "wait_loop handle_env ticket1 (''@'' @ AgentName manager) 1 ?tr2 =
      (Inr ''Three retries @bot'', ?tr2 @ [Call_GetComments (ID ticket1)])"
  proof (rule wait_loop_match)
    show "1 \<le> maxAttempts" by (simp add: maxAttempts_def)
    show "GetComments handle_env ?tr2 ticket1 = Inr ([] @ ''Three retries @bot'' # [])"
      by (simp add: handle_env_def quiet_env_def)
    show "\<forall>c \<in> set []. \<not> Contains c (''@'' @ AgentName manager)" by simp
    show "Contains ''Three retries @bot'' (''@'' @ AgentName manager)" by (rule c)
  qed
  then have 3: "WaitForReply handle_env ticket1 (''@'' @ AgentName manager) ?tr2 =
      (Inr ''Three retries @bot'', ?tr3)"
    by (simp add: WaitForReply_def)
  have 4: "Chat handle_env ?tr3 (''Three retries @bot'' @ ''\<newline>'' @ replyPrompt) =
      Inr ''A\<newline>@@@@\<newline>B\<newline>x\<newline>@@@@\<newline>C''"
    by (simp add: handle_env_def quiet_env_def)
  have 5: "parseTasksFromResponse ''A\<newline>@@@@\<newline>B\<newline>x\<newline>@@@@\<newline>C'' = Inr ?tasks"
    by code_simp
  have 6: "GetListIDByName handle_env ?tr4 ''Doing'' = Inr ''Doing''"
    by (simp add: handle_env_def quiet_env_def)
  have upt: "[0..<length ?tasks] = [0, 1, 2]"
    by (simp add: upt_rec)
  have g: "granted handle_env ''Doing'' ?tasks ?tr5 0 =
        [\<lparr>ID = ''A'', Name = ''A'', Desc = [], IDList = ''Doing'', IDMembers = []\<rparr>]"
      "granted handle_env ''Doing'' ?tasks ?tr5 1 = []"
      "granted handle_env ''Doing'' ?tasks ?tr5 2 =
        [\<lparr>ID = ''C'', Name = ''C'', Desc = [], IDList = ''Doing'', IDMembers = []\<rparr>]"
    by (simp_all add: granted_def handle_env_def quiet_env_def)
  from HandleTicket_partial_creation [OF 1 refl 2 refl 3 4 refl 5 6 refl]
  have eq: "HandleTicket handle_env manager ticket1 [] =
      (Inr (concat (map (granted handle_env ''Doing'' ?tasks ?tr5) [0..<length ?tasks])),
       ?tr5 @ map (creation ''Doing'') ?tasks)"
    by blast
  have r: "concat (map (granted handle_env ''Doing'' ?tasks ?tr5) [0..<length ?tasks]) =
      [\<lparr>ID = ''A'', Name = ''A'', Desc = [], IDList = ''Doing'', IDMembers = []\<rparr>,
       \<lparr>ID = ''C'', Name = ''C'', Desc = [], IDList = ''Doing'', IDMembers = []\<rparr>]"
    by (simp only: upt list.map concat.simps g) simp
  have t: "?tr5 @ map (creation ''Doing'') ?tasks =
     [Call_Chat (clarification_prompt ticket1),
      Call_PostComment ''T1'' ''Which retries?\<newline>@bogoego'',
      Call_GetComments ''T1'',
      Call_Chat (''Three retries @bot\<newline>'' @ replyPrompt),
      Call_GetListIDByName ''Doing'',
      Call_CreateCard ''A'' [] ''Doing'',
      Call_CreateCard ''B'' ''x'' ''Doing'',
      Call_CreateCard ''C'' [] ''Doing'']"
    by (simp add: creation_def ticket1_def)
  from eq [unfolded r t] show ?thesis by simp
qed

end
